theory Spec2Isabelle
  imports Main
begin

section \<open>Strings\<close>

text \<open>
  A JavaScript string is modelled as a \<^typ>\<open>string\<close>, one \<^typ>\<open>char\<close> per code unit;
  only code units below 256 are represented. The operations below are the methods of
  \<^verbatim>\<open>String.prototype\<close> and \<^verbatim>\<open>Array.prototype\<close> that
  \<^verbatim>\<open>cleanDataSources.js\<close> calls.
\<close>

definition LF :: char where
  "LF = CHR 0x0A"

definition CR :: char where
  "CR = CHR 0x0D"

text \<open>\<^verbatim>\<open>s.startsWith(p)\<close>\<close>

definition startsWith :: "string \<Rightarrow> string \<Rightarrow> bool" where
  "startsWith s p = (take (length p) s = p)"

text \<open>\<^verbatim>\<open>content.includes(criteria)\<close>: literal substring search.\<close>

fun string_includes :: "string \<Rightarrow> string \<Rightarrow> bool" where
  "string_includes [] criteria = (criteria = [])"
| "string_includes (c # cs) criteria = (startsWith (c # cs) criteria \<or> string_includes cs criteria)"

text \<open>
  \<^verbatim>\<open>s.trim()\<close> strips white space and line terminators from both ends. Of the
  code units below 256 these are TAB, LF, VT, FF, CR, SPACE and NBSP.
\<close>

definition is_ws :: "char \<Rightarrow> bool" where
  "is_ws c = (c = CHR 0x09 \<or> c = CHR 0x0A \<or> c = CHR 0x0B \<or> c = CHR 0x0C \<or> c = CHR 0x0D
              \<or> c = CHR 0x20 \<or> c = CHR 0xA0)"

definition trim :: "string \<Rightarrow> string" where
  "trim s = rev (dropWhile is_ws (rev (dropWhile is_ws s)))"

text \<open>
  \<^verbatim>\<open>s.split(/\r?\n/)\<close>: the separator is CR LF or a lone LF; a CR that is not followed
  by LF stays in its line. The empty string gives one empty line.
\<close>

fun split_lines :: "string \<Rightarrow> string list" where
  "split_lines [] = [[]]"
| "split_lines [c] = (if c = LF then [[], []] else [[c]])"
| "split_lines (c # d # cs) =
     (if c = LF then [] # split_lines (d # cs)
      else if c = CR \<and> d = LF then [] # split_lines cs
      else (case split_lines (d # cs) of
              l # ls \<Rightarrow> (c # l) # ls
            | [] \<Rightarrow> [[c]]))"

text \<open>A line without the CR at its end, if it has one: what CR LF leaves of a line.\<close>

definition strip_cr :: "string \<Rightarrow> string" where
  "strip_cr l = (if l \<noteq> [] \<and> last l = CR then butlast l else l)"

text \<open>\<^verbatim>\<open>xs.join(sep)\<close>\<close>

fun join :: "string \<Rightarrow> string list \<Rightarrow> string" where
  "join sep [] = []"
| "join sep [x] = x"
| "join sep (x # y # ys) = x @ sep @ join sep (y # ys)"

section \<open>Paths\<close>

text \<open>
  An absolute, normalised path is the list of its components below the file-system
  root. \<^verbatim>\<open>path.join(dir, entry)\<close> with \<^verbatim>\<open>entry\<close> a name returned by
  \<^verbatim>\<open>readdirSync\<close> appends one component.
\<close>

type_synonym path = "string list"

definition path_join :: "path \<Rightarrow> string \<Rightarrow> path" where
  "path_join dir entry = dir @ [entry]"

text \<open>
  \<^verbatim>\<open>path.relative(from, to)\<close> on normalised absolute paths: drop the common prefix,
  then climb out of what is left of \<^verbatim>\<open>from\<close>.
\<close>

fun path_relative :: "path \<Rightarrow> path \<Rightarrow> path" where
  "path_relative [] bs = bs"
| "path_relative (a # as) [] = replicate (length (a # as)) ''..''"
| "path_relative (a # as) (b # bs) =
     (if a = b then path_relative as bs
      else replicate (length (a # as)) ''..'' @ (b # bs))"

text \<open>
  \<^verbatim>\<open>path.resolve(arg)\<close> against the working directory: an argument that starts with a
  slash restarts at the root; empty and \<^verbatim>\<open>.\<close> components are dropped and
  \<^verbatim>\<open>..\<close> removes the component before it.
\<close>

fun split_on :: "char \<Rightarrow> string \<Rightarrow> string list" where
  "split_on sep [] = [[]]"
| "split_on sep (c # cs) =
     (if c = sep then [] # split_on sep cs
      else (case split_on sep cs of
              l # ls \<Rightarrow> (c # l) # ls
            | [] \<Rightarrow> [[c]]))"

fun normalize_step :: "path \<Rightarrow> string \<Rightarrow> path" where
  "normalize_step p name =
     (if name = [] \<or> name = ''.'' then p
      else if name = ''..'' then butlast p
      else p @ [name])"

definition path_resolve :: "path \<Rightarrow> string \<Rightarrow> path" where
  "path_resolve cwd arg =
     foldl normalize_step (if startsWith arg ''/'' then [] else cwd) (split_on CHR ''/'' arg)"

section \<open>The file system\<close>

text \<open>
  The store maps a path to what is found there. It describes a file system in which no
  symbolic link leads anywhere: a link to another file or directory, and a dangling link,
  through which \<^verbatim>\<open>appendFileSync\<close> would create the link's target, are outside the
  model. \<open>File None\<close> is a regular file whose content cannot be read,
  \<open>Dir False\<close> a directory that cannot be listed, \<open>Other\<close> something that is
  neither a regular file nor a directory, and \<open>Broken\<close> a symbolic link that loops:
  \<^verbatim>\<open>readdirSync\<close> lists its name, \<^verbatim>\<open>statSync\<close> and every attempt to open it raise,
  and \<^verbatim>\<open>unlinkSync\<close> removes it. The first binding of a path is the one in force.
\<close>

datatype entry = File "string option" | Dir bool | Other | Broken

type_synonym fs_store = "(path \<times> entry) list"

datatype stats = IsFile | IsDirectory | IsOther

definition isFile :: "stats \<Rightarrow> bool" where
  "isFile st = (st = IsFile)"

definition isDirectory :: "stats \<Rightarrow> bool" where
  "isDirectory st = (st = IsDirectory)"

text \<open>\<^verbatim>\<open>fs.statSync(p)\<close>; \<open>None\<close> when it raises.\<close>

definition statSync :: "fs_store \<Rightarrow> path \<Rightarrow> stats option" where
  "statSync fs p =
     (case map_of fs p of
        None \<Rightarrow> None
      | Some Broken \<Rightarrow> None
      | Some (File _) \<Rightarrow> Some IsFile
      | Some (Dir _) \<Rightarrow> Some IsDirectory
      | Some Other \<Rightarrow> Some IsOther)"

text \<open>\<^verbatim>\<open>fs.existsSync(p)\<close> never raises.\<close>

definition existsSync :: "fs_store \<Rightarrow> path \<Rightarrow> bool" where
  "existsSync fs p = (statSync fs p \<noteq> None)"

text \<open>The names bound directly below a directory, in store order, each once.\<close>

definition children :: "fs_store \<Rightarrow> path \<Rightarrow> string list" where
  "children fs dir =
     remdups (map (\<lambda>(q, e). last q) (filter (\<lambda>(q, e). q \<noteq> [] \<and> butlast q = dir) fs))"

text \<open>\<^verbatim>\<open>fs.readdirSync(p)\<close>; \<open>None\<close> when it raises.\<close>

definition readdirSync :: "fs_store \<Rightarrow> path \<Rightarrow> string list option" where
  "readdirSync fs p =
     (case map_of fs p of
        Some (Dir True) \<Rightarrow> Some (children fs p)
      | _ \<Rightarrow> None)"

text \<open>\<^verbatim>\<open>fs.readFileSync(p, 'utf8')\<close>; \<open>None\<close> when it raises.\<close>

definition readFileSync :: "fs_store \<Rightarrow> path \<Rightarrow> string option" where
  "readFileSync fs p =
     (case map_of fs p of
        Some (File (Some content)) \<Rightarrow> Some content
      | _ \<Rightarrow> None)"

section \<open>Configuration\<close>

definition TARGET_FOLDER_NAME :: string where
  "TARGET_FOLDER_NAME = ''dataSourceObjects''"

definition CRITERIA_STRING :: string where
  "CRITERIA_STRING = ''<objectType>Object</objectType>''"

definition DEFAULT_DELETE_FILES :: bool where
  "DEFAULT_DELETE_FILES = False"

definition DEFAULT_UPDATE_FORCEIGNORE :: bool where
  "DEFAULT_UPDATE_FORCEIGNORE = False"

definition FORCEIGNORE_FILENAME :: string where
  "FORCEIGNORE_FILENAME = ''.forceignore''"

definition SCRIPT_IGNORE_COMMENT :: string where
  "SCRIPT_IGNORE_COMMENT = ''# Entries added by cleanupDataSourceObjects.js''"

definition IGNORE_DIRS :: "string list" where
  "IGNORE_DIRS = [''node_modules'', ''.git'', ''.sf'', ''.sfdx'', ''.vscode'', ''.svn'']"

section \<open>The tree scanner\<close>

text \<open>How many bindings of the store lie deeper than a path: the scanner's measure.\<close>

definition deeper :: "fs_store \<Rightarrow> path \<Rightarrow> nat" where
  "deeper fs p = length (filter (\<lambda>b. length p < length (fst b)) fs)"

text \<open>
  \<^verbatim>\<open>findTargetFoldersRecursive(currentPath, targetName)\<close>. Both \<^verbatim>\<open>catch\<close> blocks
  are empty: a listing that raises gives no folders, an entry whose \<^verbatim>\<open>statSync\<close>
  raises is skipped.
\<close>

function findTargetFoldersRecursive :: "fs_store \<Rightarrow> path \<Rightarrow> string \<Rightarrow> path list" where
  "findTargetFoldersRecursive fs currentPath targetName =
     (case readdirSync fs currentPath of
        None \<Rightarrow> []
      | Some entries \<Rightarrow>
          concat (map (\<lambda>entry.
            (case statSync fs (path_join currentPath entry) of
               None \<Rightarrow> []
             | Some st \<Rightarrow>
                 if isDirectory st then
                   (if entry = targetName then [path_join currentPath entry] else []) @
                   (if entry \<notin> set IGNORE_DIRS
                    then findTargetFoldersRecursive fs (path_join currentPath entry) targetName
                    else [])
                 else [])) entries))"
  by pat_completeness auto

termination findTargetFoldersRecursive
proof (relation "measure (\<lambda>(fs, p, t). deeper fs p)")
  show "wf (measure (\<lambda>(fs, p, t). deeper fs p))"
    by simp
next
  fix fs :: fs_store and currentPath :: path and targetName :: string
    and entries entry st
  assume "statSync fs (path_join currentPath entry) = Some st"
  then obtain e where "map_of fs (currentPath @ [entry]) = Some e"
    by (auto simp: statSync_def path_join_def split: option.splits)
  then have mem: "(currentPath @ [entry], e) \<in> set fs"
    by (rule map_of_SomeD)
  have mono: "length (filter (\<lambda>a. Suc n < length (fst a)) zs)
              \<le> length (filter (\<lambda>a. n < length (fst a)) zs)" for zs :: fs_store and n
    by (induction zs) auto
  have strict: "y \<in> set xs \<Longrightarrow> length (fst y) = Suc n \<Longrightarrow>
      length (filter (\<lambda>a. Suc n < length (fst a)) xs) < length (filter (\<lambda>a. n < length (fst a)) xs)"
    for y :: "path \<times> entry" and xs n
  proof (induction xs)
    case Nil
    then show ?case by simp
  next
    case (Cons x xs)
    show ?case
    proof (cases "y = x")
      case True
      with Cons.prems mono [of n xs] show ?thesis
        by simp
    next
      case False
      with Cons show ?thesis
        by auto
    qed
  qed
  from strict [OF mem, of "length currentPath"]
  have "deeper fs (currentPath @ [entry]) < deeper fs currentPath"
    by (simp add: deeper_def)
  then show "((fs, path_join currentPath entry, targetName), (fs, currentPath, targetName))
             \<in> measure (\<lambda>(fs, p, t). deeper fs p)"
    by (simp add: path_join_def)
qed

declare findTargetFoldersRecursive.simps [simp del]

section \<open>The world: store, refused paths, console\<close>

text \<open>
  A console message is recorded as its level, the fixed text of its template up to
  the first placeholder, and the values of its placeholders; the text of a caught
  exception is not recorded.
\<close>

datatype level = LOG | WARN | ERROR

datatype arg = Str string | Strs "string list" | Path path | Num nat | Flag bool

type_synonym message = "level \<times> string \<times> arg list"

text \<open>
  \<open>denied\<close> lists the paths on which the operating system refuses
  \<^verbatim>\<open>unlinkSync\<close> and \<^verbatim>\<open>appendFileSync\<close>.
\<close>

record world =
  store :: fs_store
  denied :: "path list"
  console :: "message list"

definition console_log :: "string \<Rightarrow> arg list \<Rightarrow> world \<Rightarrow> world" where
  "console_log text args w = w\<lparr>console := console w @ [(LOG, text, args)]\<rparr>"

definition console_warn :: "string \<Rightarrow> arg list \<Rightarrow> world \<Rightarrow> world" where
  "console_warn text args w = w\<lparr>console := console w @ [(WARN, text, args)]\<rparr>"

definition console_error :: "string \<Rightarrow> arg list \<Rightarrow> world \<Rightarrow> world" where
  "console_error text args w = w\<lparr>console := console w @ [(ERROR, text, args)]\<rparr>"

text \<open>
  \<^verbatim>\<open>fs.unlinkSync(p)\<close>; \<open>None\<close> when it raises: the path is refused, is not there,
  or is a directory. Otherwise every binding of the path leaves the store.
\<close>

definition unlinkSync :: "world \<Rightarrow> path \<Rightarrow> world option" where
  "unlinkSync w p =
     (if p \<in> set (denied w) then None
      else (case map_of (store w) p of
              None \<Rightarrow> None
            | Some (Dir _) \<Rightarrow> None
            | Some _ \<Rightarrow> Some (w\<lparr>store := filter (\<lambda>(q, e). q \<noteq> p) (store w)\<rparr>)))"

text \<open>
  \<^verbatim>\<open>fs.appendFileSync(p, data, 'utf8')\<close>; \<open>None\<close> when it raises. A readable regular
  file gets the data at its end; a name that is not bound is created with the data as
  its content when its parent is a directory; everything else raises: a refused path, a
  directory, a looping link, a file that cannot be opened, a missing parent.
\<close>

definition appendFileSync :: "world \<Rightarrow> path \<Rightarrow> string \<Rightarrow> world option" where
  "appendFileSync w p data =
     (if p \<in> set (denied w) then None
      else (case map_of (store w) p of
              None \<Rightarrow>
                (case map_of (store w) (butlast p) of
                   Some (Dir _) \<Rightarrow> Some (w\<lparr>store := store w @ [(p, File (Some data))]\<rparr>)
                 | _ \<Rightarrow> None)
            | Some (File (Some content)) \<Rightarrow>
                Some (w\<lparr>store := map (\<lambda>(q, e). if q = p then (q, File (Some (content @ data)))
                                                 else (q, e)) (store w)\<rparr>)
            | Some _ \<Rightarrow> None))"

text \<open>The store without every binding of the paths in a set.\<close>

definition without :: "path set \<Rightarrow> fs_store \<Rightarrow> fs_store" where
  "without D fs = filter (\<lambda>(q, e). q \<notin> D) fs"

section \<open>The criterion filter\<close>

text \<open>
  \<^verbatim>\<open>identifyFilesForAction(folderPath, criteria)\<close>. The inner \<^verbatim>\<open>try\<close> covers
  \<^verbatim>\<open>statSync\<close> and \<^verbatim>\<open>readFileSync\<close>, and its \<^verbatim>\<open>catch\<close> is empty; the outer
  \<^verbatim>\<open>catch\<close> writes to the console.
\<close>

definition identifyFilesForAction :: "world \<Rightarrow> path \<Rightarrow> string \<Rightarrow> path list \<times> world" where
  "identifyFilesForAction w folderPath criteria =
     (case readdirSync (store w) folderPath of
        None \<Rightarrow>
          ([], console_error ''  Error reading directory {folderPath} for processing:''
                 [Path folderPath] w)
      | Some entries \<Rightarrow>
          (concat (map (\<lambda>entry.
             (case statSync (store w) (path_join folderPath entry) of
                None \<Rightarrow> []
              | Some st \<Rightarrow>
                  if isFile st then
                    (case readFileSync (store w) (path_join folderPath entry) of
                       None \<Rightarrow> []
                     | Some content \<Rightarrow>
                         if \<not> string_includes content criteria
                         then [path_join folderPath entry] else [])
                  else [])) entries), w))"

text \<open>
  The test the loop of \<^verbatim>\<open>identifyFilesForAction\<close> makes on one entry: it is a
  regular file, its content is read, and the content does not include the criteria.
\<close>

definition actionable :: "fs_store \<Rightarrow> path \<Rightarrow> string \<Rightarrow> string \<Rightarrow> bool" where
  "actionable fs folderPath criteria entry =
     (case statSync fs (path_join folderPath entry) of
        None \<Rightarrow> False
      | Some st \<Rightarrow>
          isFile st \<and>
          (case readFileSync fs (path_join folderPath entry) of
             None \<Rightarrow> False
           | Some content \<Rightarrow> \<not> string_includes content criteria))"

section \<open>The ignore-list writer\<close>

text \<open>
  The loop over \<^verbatim>\<open>absoluteFilePathsToAdd\<close>:
  \<^verbatim>\<open>path.relative(projectRootPath, absoluteFilePath).split(path.sep).join('/')\<close>
  puts a slash between the components of the relative path; a path not yet in
  \<^verbatim>\<open>existingEntries\<close> is pushed and added to the set.
\<close>

fun newRelativePaths :: "path \<Rightarrow> string set \<Rightarrow> path list \<Rightarrow> string list" where
  "newRelativePaths projectRootPath existingEntries [] = []"
| "newRelativePaths projectRootPath existingEntries (absoluteFilePath # rest) =
     (let relativePath = join ''/'' (path_relative projectRootPath absoluteFilePath) in
      if relativePath \<notin> existingEntries
      then relativePath # newRelativePaths projectRootPath (insert relativePath existingEntries) rest
      else newRelativePaths projectRootPath existingEntries rest)"

definition headerExists :: "string list \<Rightarrow> bool" where
  "headerExists originalContentLines =
     list_ex (\<lambda>line. trim line = SCRIPT_IGNORE_COMMENT) originalContentLines"

text \<open>The text built in \<^verbatim>\<open>contentToAppend\<close> when there is a new path.\<close>

definition contentToAppend :: "string list \<Rightarrow> string list \<Rightarrow> string" where
  "contentToAppend originalContentLines news =
     (let c1 = (if originalContentLines \<noteq> [] \<and> trim (last originalContentLines) \<noteq> [] \<and>
                   (\<not> headerExists originalContentLines \<or>
                    trim (last originalContentLines) \<noteq> SCRIPT_IGNORE_COMMENT)
                then [LF] else []);
          c2 = (if \<not> headerExists originalContentLines
                then c1 @ (if filter (\<lambda>l. trim l \<noteq> []) originalContentLines \<noteq> []
                           then [LF] else []) @ SCRIPT_IGNORE_COMMENT @ [LF]
                else if c1 = [] \<and> originalContentLines \<noteq> [] \<and>
                        trim (last originalContentLines) \<noteq> []
                     then c1 @ [LF]
                     else c1)
      in c2 @ join [LF] news @ [LF])"

text \<open>
  The entries of an existing ignore list: its trimmed lines that are neither empty nor
  comments.
\<close>

definition existingEntries_of :: "string list \<Rightarrow> string set" where
  "existingEntries_of originalContentLines =
     set (filter (\<lambda>trimmedLine. trimmedLine \<noteq> [] \<and> \<not> startsWith trimmedLine ''#'')
            (map trim originalContentLines))"

text \<open>
  A relative path that an ignore list gives back as the entry it was written as: it is
  not empty, has no white space at either end, does not start with the comment sign and
  has no line feed in it.
\<close>

definition clean_entry :: "string \<Rightarrow> bool" where
  "clean_entry r = (r \<noteq> [] \<and> trim r = r \<and> \<not> startsWith r ''#'' \<and> LF \<notin> set r)"

text \<open>
  \<^verbatim>\<open>updateForceignoreFile(projectRootPath, absoluteFilePathsToAdd)\<close>. A file that exists
  and cannot be read ends the function after one error message.
\<close>

definition updateForceignoreFile :: "world \<Rightarrow> path \<Rightarrow> path list \<Rightarrow> world" where
  "updateForceignoreFile w projectRootPath absoluteFilePathsToAdd =
     (let forceignorePath = path_join projectRootPath FORCEIGNORE_FILENAME in
      case (if existsSync (store w) forceignorePath
            then map_option split_lines (readFileSync (store w) forceignorePath)
            else Some []) of
        None \<Rightarrow> console_error ''Error reading {forceignorePath}:'' [Path forceignorePath] w
      | Some originalContentLines \<Rightarrow>
          (let news = newRelativePaths projectRootPath (existingEntries_of originalContentLines)
                        absoluteFilePathsToAdd
           in if length news > 0 then
                (case appendFileSync w forceignorePath
                        (contentToAppend originalContentLines news) of
                   Some w' \<Rightarrow>
                     foldl (\<lambda>w p. console_log ''  Added: {p}'' [Str p] w)
                       (console_log ''Appended {newRelativePaths.length} new entr(y/ies) to''
                          [Num (length news), Path forceignorePath] w')
                       news
                 | None \<Rightarrow>
                     console_error ''Error appending to {forceignorePath}:''
                       [Path forceignorePath] w)
              else console_log ''No new unique file paths to add to'' [Path forceignorePath] w))"

section \<open>The command line and the run\<close>

record cli =
  effectiveDeleteFiles :: bool
  effectiveUpdateForceignore :: bool
  remainingArgsForPath :: "string list"
  deleteArgProcessed :: bool
  updateForceignoreArgProcessed :: bool

definition cli_defaults :: cli where
  "cli_defaults =
     \<lparr>effectiveDeleteFiles = DEFAULT_DELETE_FILES,
      effectiveUpdateForceignore = DEFAULT_UPDATE_FORCEIGNORE,
      remainingArgsForPath = [],
      deleteArgProcessed = False,
      updateForceignoreArgProcessed = False\<rparr>"

text \<open>The body of the loop over \<^verbatim>\<open>cliArgs\<close>.\<close>

definition parse_arg :: "cli \<times> world \<Rightarrow> string \<Rightarrow> cli \<times> world" where
  "parse_arg s arg =
     (case s of (c, w) \<Rightarrow>
        if arg = ''--delete''
        then (c\<lparr>effectiveDeleteFiles := True, deleteArgProcessed := True\<rparr>, w)
        else if arg = ''--update-forceignore''
        then (c\<lparr>effectiveUpdateForceignore := True, updateForceignoreArgProcessed := True\<rparr>, w)
        else if arg = ''--no-delete''
        then (c\<lparr>effectiveDeleteFiles := False, deleteArgProcessed := True\<rparr>, w)
        else if arg = ''--no-update-forceignore''
        then (c\<lparr>effectiveUpdateForceignore := False, updateForceignoreArgProcessed := True\<rparr>, w)
        else if \<not> startsWith arg ''--''
        then (c\<lparr>remainingArgsForPath := remainingArgsForPath c @ [arg]\<rparr>, w)
        else (c, console_warn ''Warning: Unknown option {arg} will be ignored.'' [Str arg] w))"

text \<open>The messages between the argument loop and the check of the starting directory.\<close>

definition banner :: "cli \<Rightarrow> world \<Rightarrow> world" where
  "banner c w =
     (let w = (case remainingArgsForPath c of
                 a # b # rest \<Rightarrow>
                   console_warn ''Warning: Multiple path arguments found. Using the first one:''
                     [Str a, Strs (b # rest)] w
               | _ \<Rightarrow> w);
          w = console_log ''Node.js File Utility'' [] w;
          w = console_log ''-----------------------------'' [] w;
          w = (if deleteArgProcessed c
               then console_log ''INFO: File deletion explicitly set to''
                      [Flag (effectiveDeleteFiles c)] w
               else w);
          w = (if effectiveDeleteFiles c
               then console_warn ''ACTION: File deletion is ENABLED.'' [] w
               else console_log ''INFO: File deletion is DISABLED (Dry-run for deletion).'' [] w);
          w = (if updateForceignoreArgProcessed c
               then console_log ''INFO: .forceignore update explicitly set to''
                      [Flag (effectiveUpdateForceignore c)] w
               else w);
          w = (if effectiveUpdateForceignore c
               then console_log ''ACTION: .forceignore file update is ENABLED.'' [] w
               else console_log ''INFO: .forceignore file update is DISABLED.'' [] w)
      in console_log ''Criteria: Files NOT containing'' [Str CRITERIA_STRING, Str TARGET_FOLDER_NAME] w)"

text \<open>The body of \<^verbatim>\<open>filesInFolder.forEach\<close>: one message, then the deletion when enabled.\<close>

definition process_file :: "cli \<Rightarrow> world \<Rightarrow> path \<Rightarrow> world" where
  "process_file c w filePath =
     (let actionSummary =
            (if effectiveDeleteFiles c then [''To be DELETED''] else []) @
            (if effectiveUpdateForceignore c then [''To be added to .forceignore''] else []);
          w = console_log ''    - {filePath}'' [Path filePath, Strs actionSummary] w
      in if effectiveDeleteFiles c then
           (case unlinkSync w filePath of
              Some w' \<Rightarrow> console_log ''      DELETED:'' [Path filePath] w'
            | None \<Rightarrow> console_error ''      ERROR DELETING:'' [Path filePath] w)
         else w)"

text \<open>
  The body of \<^verbatim>\<open>targetFolders.forEach\<close>; the second component is
  \<^verbatim>\<open>allFilesIdentifiedForAction\<close>.
\<close>

definition process_folder :: "cli \<Rightarrow> world \<times> path list \<Rightarrow> path \<Rightarrow> world \<times> path list" where
  "process_folder c s folderPath =
     (case s of (w, allFilesIdentifiedForAction) \<Rightarrow>
        (case identifyFilesForAction
                (console_log ''Identifying files in directory:'' [Path folderPath] w)
                folderPath CRITERIA_STRING of
           (filesInFolder, w) \<Rightarrow>
             if length filesInFolder > 0 then
               (foldl (process_file c)
                  (console_log ''  Found {filesInFolder.length} file(s) in this folder that do NOT contain''
                     [Num (length filesInFolder), Str CRITERIA_STRING] w)
                  filesInFolder,
                allFilesIdentifiedForAction @ filesInFolder)
             else
               (console_log ''  No files in this folder met the criteria for action.'' [] w,
                allFilesIdentifiedForAction)))"

text \<open>The closing messages.\<close>

definition finish :: "cli \<Rightarrow> world \<Rightarrow> world" where
  "finish c w =
     (let w = console_log ''-----------------------------'' [] w;
          w = console_log ''Script finished.'' [] w;
          w = (if \<not> effectiveDeleteFiles c
               then console_log ''REMINDER: Deletion was in dry-run mode.'' [] w
               else w)
      in if \<not> effectiveUpdateForceignore c
         then console_log ''REMINDER: .forceignore file was not updated.'' [] w
         else w)"

text \<open>
  \<^verbatim>\<open>pathArgument ? path.resolve(pathArgument) : process.cwd()\<close>: the first argument
  that is not an option, unless it is the empty string.
\<close>

definition searchStartPath :: "cli \<Rightarrow> path \<Rightarrow> path" where
  "searchStartPath c cwd =
     (case remainingArgsForPath c of
        [] \<Rightarrow> cwd
      | pathArgument # rest \<Rightarrow> if pathArgument \<noteq> [] then path_resolve cwd pathArgument else cwd)"

text \<open>
  \<^verbatim>\<open>main()\<close> from the scan on: the starting directory has been checked. The result is
  the world the run leaves behind.
\<close>

definition run_search :: "cli \<Rightarrow> world \<Rightarrow> path \<Rightarrow> world" where
  "run_search c w root =
     (let w = console_log ''Starting search for {TARGET_FOLDER_NAME} directories from:''
                [Str TARGET_FOLDER_NAME, Path root] w;
          targetFolders = findTargetFoldersRecursive (store w) root TARGET_FOLDER_NAME
      in if length targetFolders = 0 then
           console_log ''Done.'' []
             (console_log ''No {TARGET_FOLDER_NAME} directories found in the specified path.''
                [Str TARGET_FOLDER_NAME] w)
         else
           (let w = foldl (\<lambda>w folder. console_log ''  - {folder}'' [Path folder] w)
                      (console_log ''Found {targetFolders.length} director(y/ies):''
                         [Num (length targetFolders), Str TARGET_FOLDER_NAME] w)
                      targetFolders
            in case foldl (process_folder c) (w, []) targetFolders of
                 (w, allFilesIdentifiedForAction) \<Rightarrow>
                   finish c
                     (if effectiveUpdateForceignore c \<and> length allFilesIdentifiedForAction > 0
                      then updateForceignoreFile w root allFilesIdentifiedForAction
                      else if effectiveUpdateForceignore c
                      then console_log ''No files identified for action, so .forceignore was not modified.''
                             [] w
                      else w)))"

text \<open>The options the argument loop ends with.\<close>

definition parsed :: "world \<Rightarrow> string list \<Rightarrow> cli" where
  "parsed w cliArgs = fst (foldl parse_arg (cli_defaults, w) cliArgs)"

text \<open>
  The files a run finds actionable: for every folder of the scan, in order, what
  \<^verbatim>\<open>identifyFilesForAction\<close> returns for it.
\<close>

definition actionable_files :: "world \<Rightarrow> path \<Rightarrow> path list" where
  "actionable_files w root =
     concat (map (\<lambda>folderPath. fst (identifyFilesForAction w folderPath CRITERIA_STRING))
               (findTargetFoldersRecursive (store w) root TARGET_FOLDER_NAME))"

text \<open>
  The files a run removes: with deletion enabled, the actionable files on which
  \<^verbatim>\<open>unlinkSync\<close> is not refused.
\<close>

definition removed :: "cli \<Rightarrow> world \<Rightarrow> path \<Rightarrow> path set" where
  "removed c w root =
     (if effectiveDeleteFiles c
      then {f \<in> set (actionable_files w root). f \<notin> set (denied w)} else {})"

text \<open>
  \<^verbatim>\<open>main()\<close>: the arguments after the script name, the working directory and the world
  give the world left behind and the exit status. \<^verbatim>\<open>process.exit(1)\<close> ends the run
  with status 1; a run that returns from \<^verbatim>\<open>main\<close> ends with status 0.
\<close>

definition main :: "world \<Rightarrow> path \<Rightarrow> string list \<Rightarrow> world \<times> nat" where
  "main w0 cwd cliArgs =
     (case foldl parse_arg (cli_defaults, w0) cliArgs of
        (c, w) \<Rightarrow>
          (let w = banner c w;
               root = searchStartPath c cwd
           in if \<not> existsSync (store w) root then
                (console_error ''Usage: node cleanupDataSourceObjects.js'' []
                   (console_error ''Error: Starting directory {searchStartPath} not found or is not a directory.''
                      [Path root] w), 1)
              else
                (case statSync (store w) root of
                   None \<Rightarrow>
                     (console_error ''Error accessing starting directory'' [Path root] w, 1)
                 | Some st \<Rightarrow>
                     if \<not> isDirectory st then
                       (console_error ''Usage: node cleanupDataSourceObjects.js'' []
                          (console_error ''Error: Starting directory {searchStartPath} not found or is not a directory.''
                             [Path root] w), 1)
                     else (run_search c w root, 0))))"

section \<open>An example tree\<close>

text \<open>
  The scenario of the specification: \<^verbatim>\<open>/proj/a/dataSourceObjects\<close> holds
  \<^verbatim>\<open>x.xml\<close>, which contains the marker, and \<^verbatim>\<open>y.xml\<close>, which does not.
\<close>

definition example_store :: fs_store where
  "example_store =
     [([''proj''], Dir True),
      ([''proj'', ''a''], Dir True),
      ([''proj'', ''a'', ''dataSourceObjects''], Dir True),
      ([''proj'', ''a'', ''dataSourceObjects'', ''x.xml''],
         File (Some ''<a><objectType>Object</objectType></a>'')),
      ([''proj'', ''a'', ''dataSourceObjects'', ''y.xml''],
         File (Some ''<a><objectType>Field</objectType></a>''))]"

text \<open>The same tree with an ignore list that cannot be read.\<close>

definition example_store_locked :: fs_store where
  "example_store_locked = example_store @ [([''proj'', ''.forceignore''], File None)]"

section \<open>The earlier script: deletion switched by a constant\<close>

text \<open>
  The second script of \<^verbatim>\<open>cleanDataSources.js\<close> (from its second
  \<^verbatim>\<open>// Filename:\<close> line on) takes no option: \<^verbatim>\<open>DELETE_FILES\<close> is a constant.
  Its scanner is the one above.
\<close>

definition DELETE_FILES :: bool where
  "DELETE_FILES = True"

text \<open>
  The body of the loop of \<^verbatim>\<open>processFilesLookigForAbsence\<close>; the state is the world
  with \<^verbatim>\<open>filesProcessed\<close> and \<^verbatim>\<open>filesMarkedForDeletion\<close>.
\<close>

definition process_entry :: "path \<Rightarrow> string \<Rightarrow> world \<times> nat \<times> nat \<Rightarrow> string \<Rightarrow> world \<times> nat \<times> nat" where
  "process_entry folderPath criteria s entry =
     (case s of (w, filesProcessed, filesMarkedForDeletion) \<Rightarrow>
        (case statSync (store w) (path_join folderPath entry) of
           None \<Rightarrow> s
         | Some st \<Rightarrow>
             if isFile st then
               (case readFileSync (store w) (path_join folderPath entry) of
                  None \<Rightarrow> (w, Suc filesProcessed, filesMarkedForDeletion)
                | Some content \<Rightarrow>
                    if \<not> string_includes content criteria then
                      (let w = console_log ''  File does NOT contain''
                                 [Str criteria, Flag DELETE_FILES, Path (path_join folderPath entry)] w
                       in if DELETE_FILES then
                            (case unlinkSync w (path_join folderPath entry) of
                               Some w' \<Rightarrow>
                                 (console_log ''    DELETED:'' [Path (path_join folderPath entry)] w',
                                  Suc filesProcessed, Suc filesMarkedForDeletion)
                             | None \<Rightarrow>
                                 (console_error ''    ERROR DELETING:''
                                    [Path (path_join folderPath entry)] w,
                                  Suc filesProcessed, Suc filesMarkedForDeletion))
                          else (w, Suc filesProcessed, Suc filesMarkedForDeletion))
                    else (w, Suc filesProcessed, filesMarkedForDeletion))
             else s))"

definition processFilesLookigForAbsence :: "world \<Rightarrow> path \<Rightarrow> string \<Rightarrow> world" where
  "processFilesLookigForAbsence w folderPath criteria =
     (case readdirSync (store w) folderPath of
        None \<Rightarrow> console_error ''  Error reading directory {folderPath}:'' [Path folderPath] w
      | Some entries \<Rightarrow>
          (case foldl (process_entry folderPath criteria) (w, 0, 0) entries of
             (w, filesProcessed, filesMarkedForDeletion) \<Rightarrow>
               if filesProcessed = 0
               then console_log ''  No files found directly in this directory.'' [] w
               else if filesMarkedForDeletion = 0
               then console_log ''  All files checked contained the criteria string or no files met deletion criteria.'' [] w
               else w))"

text \<open>
  \<^verbatim>\<open>main()\<close> of the earlier script; \<open>startArg\<close> is \<^verbatim>\<open>process.argv[2]\<close>,
  \<open>None\<close> when the script is started without an argument.
\<close>

definition main_earlier :: "world \<Rightarrow> path \<Rightarrow> string option \<Rightarrow> world \<times> nat" where
  "main_earlier w0 cwd startArg =
     (let w = console_log ''Node.js File Cleanup Utility'' [] w0;
          w = console_log ''-----------------------------'' [] w;
          w = (if DELETE_FILES
               then console_warn ''WARNING: DELETE_FILES is set to true. Files will be permanently deleted.'' [] w
               else console_log ''INFO: DELETE_FILES is false. Running in dry-run mode. No files will be deleted.'' [] w);
          w = console_log ''Criteria: Files NOT containing'' [Str CRITERIA_STRING, Str TARGET_FOLDER_NAME] w;
          root = (case startArg of
                    None \<Rightarrow> cwd
                  | Some a \<Rightarrow> if a \<noteq> [] then path_resolve cwd a else cwd)
      in if \<not> existsSync (store w) root then
           (console_error ''Usage: node cleanupDataSourceObjects.js [path_to_search_from]'' []
              (console_error ''Error: Starting directory {searchStartPath} not found or is not a directory.''
                 [Path root] w), 1)
         else
           (case statSync (store w) root of
              None \<Rightarrow> (console_error ''Error accessing starting directory'' [Path root] w, 1)
            | Some st \<Rightarrow>
                if \<not> isDirectory st then
                  (console_error ''Usage: node cleanupDataSourceObjects.js [path_to_search_from]'' []
                     (console_error ''Error: Starting directory {searchStartPath} not found or is not a directory.''
                        [Path root] w), 1)
                else
                  (let w = console_log ''Starting search for {TARGET_FOLDER_NAME} directories from:''
                             [Str TARGET_FOLDER_NAME, Path root] w;
                       targetFolders = findTargetFoldersRecursive (store w) root TARGET_FOLDER_NAME
                   in if length targetFolders = 0 then
                        (console_log ''Done.'' []
                           (console_log ''No {TARGET_FOLDER_NAME} directories found in the specified path.''
                              [Str TARGET_FOLDER_NAME] w), 0)
                      else
                        (let w = foldl (\<lambda>w folder. console_log ''  - {folder}'' [Path folder] w)
                                   (console_log ''Found {targetFolders.length} director(y/ies):''
                                      [Num (length targetFolders), Str TARGET_FOLDER_NAME] w)
                                   targetFolders;
                             w = foldl (\<lambda>w folderPath.
                                    processFilesLookigForAbsence
                                      (console_log ''Processing directory:'' [Path folderPath] w)
                                      folderPath CRITERIA_STRING) w targetFolders;
                             w = console_log ''-----------------------------'' [] w;
                             w = console_log ''Script finished.'' [] w
                         in (if \<not> DELETE_FILES
                             then console_log ''REMINDER: This was a dry run.'' [] w
                             else w, 0)))))"

section \<open>Strings and lists: basic facts\<close>

lemma startsWith_iff: "startsWith s p \<longleftrightarrow> (\<exists>post. s = p @ post)"
  unfolding startsWith_def
  by (metis append_eq_conv_conj append_take_drop_id)

lemma string_includes_iff:
  "string_includes s criteria \<longleftrightarrow> (\<exists>pre post. s = pre @ criteria @ post)"
proof (induction s)
  case Nil
  then show ?case by auto
next
  case (Cons c cs)
  show ?case
  proof
    assume "string_includes (c # cs) criteria"
    then consider "startsWith (c # cs) criteria" | "string_includes cs criteria"
      by auto
    then show "\<exists>pre post. c # cs = pre @ criteria @ post"
    proof cases
      case 1
      then obtain post where "c # cs = criteria @ post"
        by (auto simp: startsWith_iff)
      then have "c # cs = [] @ criteria @ post" by simp
      then show ?thesis by blast
    next
      case 2
      with Cons.IH obtain pre post where "cs = pre @ criteria @ post" by blast
      then have "c # cs = (c # pre) @ criteria @ post" by simp
      then show ?thesis by blast
    qed
  next
    assume "\<exists>pre post. c # cs = pre @ criteria @ post"
    then obtain pre post where eq: "c # cs = pre @ criteria @ post" by blast
    show "string_includes (c # cs) criteria"
    proof (cases pre)
      case Nil
      with eq have "startsWith (c # cs) criteria"
        by (auto simp: startsWith_iff)
      then show ?thesis by simp
    next
      case (Cons a pre')
      with eq have "cs = pre' @ criteria @ post" by simp
      with Cons.IH have "string_includes cs criteria" by blast
      then show ?thesis by simp
    qed
  qed
qed

lemma concat_map_if:
  "concat (map (\<lambda>x. if P x then [f x] else []) xs) = map f (filter P xs)"
  by (induction xs) auto

lemma path_join_inj: "path_join d a = path_join d b \<longleftrightarrow> a = b"
  by (simp add: path_join_def)

section \<open>Lines\<close>

lemma CR_neq_LF [simp]: "CR \<noteq> LF" "LF \<noteq> CR"
  by (simp_all add: CR_def LF_def)

lemma split_lines_LF [simp]: "split_lines (LF # s) = [] # split_lines s"
  by (cases s) simp_all

lemma split_lines_CRLF [simp]: "split_lines (CR # LF # s) = [] # split_lines s"
  by simp

lemma split_lines_not_Nil [simp]: "split_lines s \<noteq> []"
  by (induction s rule: split_lines.induct) (auto split: list.splits)

lemma split_lines_other:
  "c \<noteq> LF \<Longrightarrow> \<not> (c = CR \<and> (\<exists>t. s = LF # t)) \<Longrightarrow>
   split_lines (c # s) = (c # hd (split_lines s)) # tl (split_lines s)"
  by (cases s) (auto split: list.splits)

lemma split_lines_eq_single_Nil [simp]: "split_lines s = [[]] \<longleftrightarrow> s = []"
  by (induction s rule: split_lines.induct) (auto split: list.splits)

lemma split_lines_append_LF:
  "split_lines (a @ LF # y) =
     butlast (split_lines a) @ [strip_cr (last (split_lines a))] @ split_lines y"
proof (induction a rule: split_lines.induct)
  case 1
  then show ?case by (simp add: strip_cr_def)
next
  case (2 c)
  then show ?case by (auto simp: strip_cr_def split: list.splits)
next
  case (3 c d cs)
  show ?case
  proof (cases "c = LF")
    case True
    with 3 show ?thesis by simp
  next
    case False
    show ?thesis
    proof (cases "c = CR \<and> d = LF")
      case True
      with 3 show ?thesis by simp
    next
      case cd: False
      obtain l ls where X: "split_lines (d # cs) = l # ls"
        by (cases "split_lines (d # cs)") simp_all
      have IH: "split_lines ((d # cs) @ LF # y) =
        butlast (l # ls) @ [strip_cr (last (l # ls))] @ split_lines y"
        using 3(3) [OF False cd] by (simp add: X)
      have L: "split_lines ((c # d # cs) @ LF # y) =
          (c # hd (split_lines ((d # cs) @ LF # y))) # tl (split_lines ((d # cs) @ LF # y))"
        using False cd by (simp split: list.splits)
      have R: "split_lines (c # d # cs) = (c # l) # ls"
        using False cd X by simp
      show ?thesis
      proof (cases ls)
        case Nil
        with X have "l \<noteq> []" 
          using split_lines_eq_single_Nil [of "d # cs"] by auto
        with Nil show ?thesis
          unfolding L R IH by (simp add: strip_cr_def)
      next
        case (Cons m ms)
        then show ?thesis
          unfolding L R IH by simp
      qed
    qed
  qed
qed


lemma split_lines_noLF: "LF \<notin> set r \<Longrightarrow> split_lines r = [r]"
  by (induction r rule: split_lines.induct) auto

lemma split_lines_append_noLF:
  "LF \<notin> set r \<Longrightarrow>
   split_lines (x @ r) = butlast (split_lines x) @ [last (split_lines x) @ r]"
proof (induction x rule: split_lines.induct)
  case 1
  then show ?case by (simp add: split_lines_noLF)
next
  case (2 c)
  show ?case
  proof (cases "c = LF")
    case True
    with 2 show ?thesis by (simp add: split_lines_noLF)
  next
    case False
    from 2 have "\<not> (c = CR \<and> (\<exists>t. r = LF # t))" by auto
    from split_lines_other [OF False this] 2 False show ?thesis
      by (simp add: split_lines_noLF)
  qed
next
  case (3 c d cs)
  show ?case
  proof (cases "c = LF")
    case True
    with 3 show ?thesis by simp
  next
    case False
    show ?thesis
    proof (cases "c = CR \<and> d = LF")
      case True
      with 3 show ?thesis by simp
    next
      case cd: False
      obtain l ls where X: "split_lines (d # cs) = l # ls"
        by (cases "split_lines (d # cs)") simp_all
      have IH: "split_lines ((d # cs) @ r) = butlast (l # ls) @ [last (l # ls) @ r]"
        using 3(3) [OF False cd 3(4)] by (simp add: X)
      have L: "split_lines ((c # d # cs) @ r) =
          (c # hd (split_lines ((d # cs) @ r))) # tl (split_lines ((d # cs) @ r))"
        using False cd by (simp split: list.splits)
      have R: "split_lines (c # d # cs) = (c # l) # ls"
        using False cd X by simp
      show ?thesis
        unfolding L R IH by (cases ls) simp_all
    qed
  qed
qed


subsection \<open>Trimming\<close>

lemma trim_eq_Nil: "trim s = [] \<longleftrightarrow> (\<forall>c \<in> set s. is_ws c)"
proof -
  have "trim s = [] \<longleftrightarrow> (\<forall>c \<in> set (dropWhile is_ws s). is_ws c)"
    by (simp add: trim_def dropWhile_eq_Nil_conv)
  also have "\<dots> \<longleftrightarrow> dropWhile is_ws s = []"
  proof (cases "dropWhile is_ws s")
    case Nil
    then show ?thesis by (simp del: dropWhile_eq_Nil_conv)
  next
    case (Cons a l)
    then have "\<not> is_ws a"
      using hd_dropWhile [of is_ws s] by simp
    with Cons show ?thesis by auto
  qed
  also have "\<dots> \<longleftrightarrow> (\<forall>c \<in> set s. is_ws c)"
    by (simp add: dropWhile_eq_Nil_conv)
  finally show ?thesis .
qed

lemma trim_ws_append: "(\<forall>c \<in> set ws. is_ws c) \<Longrightarrow> trim (ws @ h) = trim h"
  by (simp add: trim_def dropWhile_append2)

lemma trim_snoc_ws: "is_ws c \<Longrightarrow> trim (xs @ [c]) = trim xs"
proof (cases "\<forall>x \<in> set xs. is_ws x")
  case True
  assume "is_ws c"
  with True have "trim (xs @ [c]) = []" "trim xs = []"
    by (simp_all add: trim_eq_Nil)
  then show ?thesis by simp
next
  case False
  assume c: "is_ws c"
  from False have "dropWhile is_ws (xs @ [c]) = dropWhile is_ws xs @ [c]"
    by (auto simp: dropWhile_append1)
  with c show ?thesis
    by (simp add: trim_def)
qed

lemma is_ws_CR [simp]: "is_ws CR"
  by (simp add: is_ws_def CR_def)

lemma is_ws_LF [simp]: "is_ws LF"
  by (simp add: is_ws_def LF_def)

lemma trim_strip_cr [simp]: "trim (strip_cr l) = trim l"
proof (cases "l \<noteq> [] \<and> last l = CR")
  case True
  then have "l = butlast l @ [CR]"
    by (metis append_butlast_last_id)
  then have "trim l = trim (butlast l)"
    by (metis trim_snoc_ws is_ws_CR)
  with True show ?thesis by (simp add: strip_cr_def)
next
  case False
  then show ?thesis by (auto simp: strip_cr_def)
qed

subsection \<open>Entries of an ignore list\<close>

lemma existingEntries_of_iff:
  "t \<in> existingEntries_of ls \<longleftrightarrow> (t \<in> trim ` set ls \<and> t \<noteq> [] \<and> \<not> startsWith t ''#'')"
  by (auto simp: existingEntries_of_def)

lemma existingEntries_of_append:
  "existingEntries_of (xs @ ys) = existingEntries_of xs \<union> existingEntries_of ys"
  by (auto simp: existingEntries_of_def)

lemma existingEntries_of_single:
  "existingEntries_of [l] = (if trim l \<noteq> [] \<and> \<not> startsWith (trim l) ''#'' then {trim l} else {})"
  by (auto simp: existingEntries_of_def)

lemma set_butlast_last: "xs \<noteq> [] \<Longrightarrow> set xs = set (butlast xs) \<union> {last xs}"
  by (induction xs) auto

lemma trimmed_lines_append_LF:
  "trim ` set (split_lines (a @ LF # y)) =
     trim ` set (split_lines a) \<union> trim ` set (split_lines y)"
proof -
  have "set (split_lines a) = set (butlast (split_lines a)) \<union> {last (split_lines a)}"
    by (rule set_butlast_last) simp
  then have "trim ` set (split_lines a) =
      trim ` set (butlast (split_lines a)) \<union> {trim (last (split_lines a))}"
    by simp
  then show ?thesis
    by (simp add: split_lines_append_LF image_Un Un_ac)
qed

lemma entries_append_LF:
  "existingEntries_of (split_lines (a @ LF # y)) =
     existingEntries_of (split_lines a) \<union> existingEntries_of (split_lines y)"
  by (rule set_eqI) (auto simp: existingEntries_of_iff trimmed_lines_append_LF)

section \<open>The criterion filter: what it returns\<close>

lemma identify_fst:
  "fst (identifyFilesForAction w folderPath criteria) =
     (case readdirSync (store w) folderPath of
        None \<Rightarrow> []
      | Some entries \<Rightarrow>
          map (path_join folderPath) (filter (actionable (store w) folderPath criteria) entries))"
proof (cases "readdirSync (store w) folderPath")
  case None
  then show ?thesis by (simp add: identifyFilesForAction_def)
next
  case (Some entries)
  have "(\<lambda>entry. case statSync (store w) (path_join folderPath entry) of
                None \<Rightarrow> []
              | Some st \<Rightarrow>
                  if isFile st then
                    (case readFileSync (store w) (path_join folderPath entry) of
                       None \<Rightarrow> []
                     | Some content \<Rightarrow>
                         if \<not> string_includes content criteria
                         then [path_join folderPath entry] else [])
                  else [])
        = (\<lambda>entry. if actionable (store w) folderPath criteria entry
                    then [path_join folderPath entry] else [])"
    by (rule ext) (simp add: actionable_def split: option.splits)
  with Some show ?thesis
    by (simp add: identifyFilesForAction_def concat_map_if)
qed

text \<open>
  C1. A regular file directly inside the folder whose content is read is in the
  sequence that \<^verbatim>\<open>identifyFilesForAction\<close> returns if and only if its content does not
  contain the marker as a literal substring: no prefix and suffix exist with the marker
  between them, character for character.
\<close>

theorem criterion_filter_iff:
  assumes "readdirSync (store w) folderPath = Some entries"
    and "entry \<in> set entries"
    and "statSync (store w) (path_join folderPath entry) = Some st" and "isFile st"
    and "readFileSync (store w) (path_join folderPath entry) = Some content"
  shows "path_join folderPath entry \<in> set (fst (identifyFilesForAction w folderPath marker))
         \<longleftrightarrow> \<not> (\<exists>pre post. content = pre @ marker @ post)"
proof -
  have "path_join folderPath entry \<in> set (fst (identifyFilesForAction w folderPath marker))
        \<longleftrightarrow> actionable (store w) folderPath marker entry"
    using assms(1,2) by (auto simp: identify_fst path_join_inj)
  also have "\<dots> \<longleftrightarrow> \<not> string_includes content marker"
    using assms(3-5) by (simp add: actionable_def)
  finally show ?thesis
    by (simp add: string_includes_iff)
qed

theorem criterion_filter_iff_witness:
  "readdirSync [([''d''], Dir True), ([''d'', ''y''], File (Some ''abc''))] [''d''] = Some [''y'']
   \<and> statSync [([''d''], Dir True), ([''d'', ''y''], File (Some ''abc''))] (path_join [''d''] ''y'')
       = Some IsFile
   \<and> isFile IsFile
   \<and> readFileSync [([''d''], Dir True), ([''d'', ''y''], File (Some ''abc''))] (path_join [''d''] ''y'')
       = Some ''abc''
   \<and> (path_join [''d''] ''y''
        \<in> set (fst (identifyFilesForAction
             \<lparr>store = [([''d''], Dir True), ([''d'', ''y''], File (Some ''abc''))],
              denied = [], console = []\<rparr> [''d''] ''B''))
       \<longleftrightarrow> \<not> (\<exists>pre post. ''abc'' = pre @ ''B'' @ post))"
proof -
  let ?fs = "[([''d''], Dir True), ([''d'', ''y''], File (Some ''abc''))]"
  let ?w = "\<lparr>store = ?fs, denied = [], console = []\<rparr>"
  have h1: "readdirSync (store ?w) [''d''] = Some [''y'']"
    by (simp add: readdirSync_def children_def)
  have h2: "''y'' \<in> set [''y'']"
    by simp
  have h3: "statSync (store ?w) (path_join [''d''] ''y'') = Some IsFile"
    by (simp add: statSync_def path_join_def)
  have h4: "isFile IsFile"
    by (simp add: isFile_def)
  have h5: "readFileSync (store ?w) (path_join [''d''] ''y'') = Some ''abc''"
    by (simp add: readFileSync_def path_join_def)
  from criterion_filter_iff [OF h1 h2 h3 h4 h5, of "''B''"] h1 h3 h4 h5
  show ?thesis by simp
qed

text \<open>
  C10. When the listing of a directory raises, \<^verbatim>\<open>identifyFilesForAction\<close> returns the
  empty sequence, having written one error message and changed nothing else, and
  \<^verbatim>\<open>findTargetFoldersRecursive\<close> started there returns the empty sequence: both are
  ordinary results, no error reaches the caller.
\<close>

theorem listing_failure_is_empty:
  assumes "readdirSync (store w) dir = None"
  shows "identifyFilesForAction w dir criteria =
           ([], w\<lparr>console := console w @
                   [(ERROR, ''  Error reading directory {folderPath} for processing:'',
                     [Path dir])]\<rparr>)
         \<and> findTargetFoldersRecursive (store w) dir targetName = []"
  using assms
  by (simp add: identifyFilesForAction_def console_error_def findTargetFoldersRecursive.simps)

theorem listing_failure_is_empty_witness:
  "readdirSync (store \<lparr>store = [([''d''], Dir False)], denied = [], console = []\<rparr>) [''d''] = None
   \<and> identifyFilesForAction \<lparr>store = [([''d''], Dir False)], denied = [], console = []\<rparr>
        [''d''] CRITERIA_STRING =
       ([], \<lparr>store = [([''d''], Dir False)], denied = [],
             console = [(ERROR, ''  Error reading directory {folderPath} for processing:'',
                         [Path [''d'']])]\<rparr>)
   \<and> findTargetFoldersRecursive [([''d''], Dir False)] [''d''] TARGET_FOLDER_NAME = []"
proof -
  have h: "readdirSync (store \<lparr>store = [([''d''], Dir False)], denied = [], console = []\<rparr>)
             [''d''] = None"
    by (simp add: readdirSync_def)
  from listing_failure_is_empty [OF h, of CRITERIA_STRING TARGET_FOLDER_NAME] h
  show ?thesis by simp
qed

section \<open>The tree scanner: where it goes and what it returns\<close>

lemma scan_mem:
  "q \<in> set (findTargetFoldersRecursive fs cur t) \<longleftrightarrow>
     (\<exists>entries entry st.
        readdirSync fs cur = Some entries \<and> entry \<in> set entries \<and>
        statSync fs (path_join cur entry) = Some st \<and> isDirectory st \<and>
        (entry = t \<and> q = path_join cur entry \<or>
         entry \<notin> set IGNORE_DIRS \<and>
         q \<in> set (findTargetFoldersRecursive fs (path_join cur entry) t)))"
proof (cases "readdirSync fs cur")
  case None
  then show ?thesis
    by (subst findTargetFoldersRecursive.simps) simp
next
  case (Some entries)
  have one: "q \<in> set (case statSync fs (path_join cur entry) of
                 None \<Rightarrow> []
               | Some st \<Rightarrow>
                   if isDirectory st then
                     (if entry = t then [path_join cur entry] else []) @
                     (if entry \<notin> set IGNORE_DIRS
                      then findTargetFoldersRecursive fs (path_join cur entry) t
                      else [])
                   else [])
        \<longleftrightarrow> (\<exists>st. statSync fs (path_join cur entry) = Some st \<and> isDirectory st \<and>
              (entry = t \<and> q = path_join cur entry \<or>
               entry \<notin> set IGNORE_DIRS \<and>
               q \<in> set (findTargetFoldersRecursive fs (path_join cur entry) t)))" for entry
    by (cases "statSync fs (path_join cur entry)") auto
  show ?thesis
    apply (subst findTargetFoldersRecursive.simps)
    apply (simp only: Some option.simps set_concat set_map image_image UN_iff one)
    apply blast
    done
qed

lemma scan_shape:
  "q \<in> set (findTargetFoldersRecursive fs root targetName) \<Longrightarrow>
   \<exists>between. q = root @ between @ [targetName] \<and> set between \<inter> set IGNORE_DIRS = {}"
proof (induction fs root targetName arbitrary: q rule: findTargetFoldersRecursive.induct)
  case (1 fs currentPath targetName)
  from "1.prems" obtain entries entry st where
    rd: "readdirSync fs currentPath = Some entries" and
    mem: "entry \<in> set entries" and
    st: "statSync fs (path_join currentPath entry) = Some st" and
    dir: "isDirectory st" and
    q: "(entry = targetName \<and> q = path_join currentPath entry) \<or>
        (entry \<notin> set IGNORE_DIRS \<and>
         q \<in> set (findTargetFoldersRecursive fs (path_join currentPath entry) targetName))"
    by (subst (asm) scan_mem) blast
  from q show ?case
  proof
    assume "entry = targetName \<and> q = path_join currentPath entry"
    then have "q = currentPath @ [] @ [targetName] \<and> set [] \<inter> set IGNORE_DIRS = {}"
      by (simp add: path_join_def)
    then show ?thesis by blast
  next
    assume a: "entry \<notin> set IGNORE_DIRS \<and>
         q \<in> set (findTargetFoldersRecursive fs (path_join currentPath entry) targetName)"
    with "1.IH" [OF rd mem st dir] obtain between where
      "q = path_join currentPath entry @ between @ [targetName]"
      "set between \<inter> set IGNORE_DIRS = {}"
      by blast
    with a have "q = currentPath @ (entry # between) @ [targetName] \<and>
                 set (entry # between) \<inter> set IGNORE_DIRS = {}"
      by (simp add: path_join_def)
    then show ?thesis by blast
  qed
qed

text \<open>
  C2. \<open>findTargetFoldersRecursive_rel\<close> is the call relation of the definition of
  \<^verbatim>\<open>findTargetFoldersRecursive\<close>: it holds between the arguments of a recursive call and
  the arguments of the call that makes it. Every recursive call goes into an entry of
  the current directory whose name is not in \<^verbatim>\<open>IGNORE_DIRS\<close>. So every folder the scan
  returns is the starting directory, then names of which none is in
  \<^verbatim>\<open>IGNORE_DIRS\<close>, then the target name: a target folder below an ignored name, at any
  depth below the starting directory, is not returned.
\<close>

theorem scanner_skips_ignored:
  "(findTargetFoldersRecursive_rel (fs', p', t') (fs, p, t) \<longrightarrow>
      (\<exists>entry. p' = path_join p entry \<and> entry \<notin> set IGNORE_DIRS)) \<and>
   (q \<in> set (findTargetFoldersRecursive fs root targetName) \<longrightarrow>
      (\<exists>between. q = root @ between @ [targetName] \<and> set between \<inter> set IGNORE_DIRS = {}))"
proof
  show "findTargetFoldersRecursive_rel (fs', p', t') (fs, p, t) \<longrightarrow>
      (\<exists>entry. p' = path_join p entry \<and> entry \<notin> set IGNORE_DIRS)"
    by (auto elim: findTargetFoldersRecursive_rel.cases)
next
  show "q \<in> set (findTargetFoldersRecursive fs root targetName) \<longrightarrow>
      (\<exists>between. q = root @ between @ [targetName] \<and> set between \<inter> set IGNORE_DIRS = {})"
    using scan_shape by blast
qed

theorem scanner_skips_ignored_witness:
  "findTargetFoldersRecursive_rel
     ([([''p''], Dir True), ([''p'', ''a''], Dir True), ([''p'', ''a'', ''t''], Dir True),
       ([''p'', ''.git''], Dir True), ([''p'', ''.git'', ''t''], Dir True)],
      path_join [''p''] ''a'', ''t'')
     ([([''p''], Dir True), ([''p'', ''a''], Dir True), ([''p'', ''a'', ''t''], Dir True),
       ([''p'', ''.git''], Dir True), ([''p'', ''.git'', ''t''], Dir True)],
      [''p''], ''t'')
   \<and> [''p'', ''a'', ''t''] \<in> set (findTargetFoldersRecursive
         [([''p''], Dir True), ([''p'', ''a''], Dir True), ([''p'', ''a'', ''t''], Dir True),
          ([''p'', ''.git''], Dir True), ([''p'', ''.git'', ''t''], Dir True)] [''p''] ''t'')
   \<and> (\<exists>entry. path_join [''p''] ''a'' = path_join [''p''] entry \<and> entry \<notin> set IGNORE_DIRS)
   \<and> (\<exists>between. [''p'', ''a'', ''t''] = [''p''] @ between @ [''t'']
          \<and> set between \<inter> set IGNORE_DIRS = {})"
proof -
  let ?fs = "[([''p''], Dir True), ([''p'', ''a''], Dir True), ([''p'', ''a'', ''t''], Dir True),
       ([''p'', ''.git''], Dir True), ([''p'', ''.git'', ''t''], Dir True)]"
  have rel: "findTargetFoldersRecursive_rel (?fs, path_join [''p''] ''a'', ''t'') (?fs, [''p''], ''t'')"
    by (rule findTargetFoldersRecursive_rel.intros [where ?x2.0 = "[''a'', ''.git'']" and x2a = IsDirectory])
       (simp_all add: readdirSync_def children_def statSync_def path_join_def isDirectory_def
          IGNORE_DIRS_def)
  have mem: "[''p'', ''a'', ''t''] \<in> set (findTargetFoldersRecursive ?fs [''p''] ''t'')"
    apply (subst findTargetFoldersRecursive.simps)
    apply (simp add: readdirSync_def children_def statSync_def path_join_def isDirectory_def
          IGNORE_DIRS_def)
    apply (subst findTargetFoldersRecursive.simps)
    apply (simp add: readdirSync_def children_def statSync_def path_join_def isDirectory_def
          IGNORE_DIRS_def)
    done
  from scanner_skips_ignored [of ?fs "path_join [''p''] ''a''" "''t''" ?fs "[''p'']" "''t''"
         "[''p'', ''a'', ''t'']" "[''p'']" "''t''"] rel mem
  show ?thesis by blast
qed

section \<open>The world: what the operations change\<close>

lemma console_simps [simp]:
  "store (console_log t a w) = store w" "denied (console_log t a w) = denied w"
  "store (console_warn t a w) = store w" "denied (console_warn t a w) = denied w"
  "store (console_error t a w) = store w" "denied (console_error t a w) = denied w"
  by (simp_all add: console_log_def console_warn_def console_error_def)

lemma foldl_console_log [simp]:
  "store (foldl (\<lambda>w x. console_log (t x) (a x) w) w xs) = store w"
  "denied (foldl (\<lambda>w x. console_log (t x) (a x) w) w xs) = denied w"
  by (induction xs arbitrary: w) simp_all

lemma map_of_update_all:
  "map_of (map (\<lambda>(q, e). if q = p then (q, v) else (q, e)) fs) =
     (\<lambda>q. if q = p then map_option (\<lambda>_. v) (map_of fs p) else map_of fs q)"
  by (induction fs) (auto simp: fun_eq_iff)

lemma appendFileSync_Some:
  assumes "appendFileSync w p d = Some w1"
  shows "denied w1 = denied w" and "console w1 = console w"
    and "\<exists>old. (readFileSync (store w) p = Some old \<or> (map_of (store w) p = None \<and> old = []))
           \<and> map_of (store w1) = (map_of (store w))(p \<mapsto> File (Some (old @ d)))"
proof -
  show "denied w1 = denied w" and "console w1 = console w"
    using assms
    by (auto simp: appendFileSync_def split: if_splits option.splits entry.splits)
  show "\<exists>old. (readFileSync (store w) p = Some old \<or> (map_of (store w) p = None \<and> old = []))
           \<and> map_of (store w1) = (map_of (store w))(p \<mapsto> File (Some (old @ d)))"
  proof (cases "map_of (store w) p")
    case None
    with assms have "store w1 = store w @ [(p, File (Some d))]"
      by (auto simp: appendFileSync_def split: if_splits option.splits entry.splits)
    with None have "map_of (store w1) = (map_of (store w))(p \<mapsto> File (Some ([] @ d)))"
      by (auto simp: fun_eq_iff map_add_def split: option.splits)
    with None show ?thesis by blast
  next
    case (Some e)
    with assms obtain old where e: "e = File (Some old)"
      and st: "store w1 = map (\<lambda>(q, e). if q = p then (q, File (Some (old @ d))) else (q, e)) (store w)"
      by (auto simp: appendFileSync_def split: if_splits option.splits entry.splits)
    from Some e have "readFileSync (store w) p = Some old"
      by (simp add: readFileSync_def)
    moreover from st Some have "map_of (store w1) = (map_of (store w))(p \<mapsto> File (Some (old @ d)))"
      by (auto simp: map_of_update_all fun_eq_iff)
    ultimately show ?thesis by blast
  qed
qed

section \<open>The ignore-list writer: what it appends\<close>

lemma join_block:
  "news \<noteq> [] \<Longrightarrow> join sep news @ sep = concat (map (\<lambda>p. p @ sep) news)"
  by (induction sep news rule: join.induct) simp_all

lemma newRelativePaths_props:
  "distinct (newRelativePaths root E batch) \<and>
   set (newRelativePaths root E batch) \<inter> E = {} \<and>
   set (newRelativePaths root E batch) \<union> E =
     (\<lambda>p. join ''/'' (path_relative root p)) ` set batch \<union> E"
proof (induction batch arbitrary: E)
  case Nil
  then show ?case by simp
next
  case (Cons a batch)
  let ?r = "join ''/'' (path_relative root a)"
  show ?case
  proof (cases "?r \<in> E")
    case True
    with Cons [of E] show ?thesis by (auto simp: Let_def)
  next
    case False
    with Cons [of "insert ?r E"] show ?thesis by (auto simp: Let_def)
  qed
qed

lemma newRelativePaths_Nil:
  "(\<lambda>p. join ''/'' (path_relative root p)) ` set batch \<subseteq> E \<Longrightarrow>
   newRelativePaths root E batch = []"
  by (induction batch arbitrary: E) (auto simp: Let_def)

lemma contentToAppend_closed:
  assumes "news \<noteq> []"
  shows "contentToAppend lines news =
     (if lines \<noteq> [] \<and> trim (last lines) \<noteq> [] then [LF] else []) @
     (if headerExists lines then []
      else (if \<exists>l \<in> set lines. trim l \<noteq> [] then [LF] else []) @ SCRIPT_IGNORE_COMMENT @ [LF]) @
     concat (map (\<lambda>p. p @ [LF]) news)"
proof -
  have f: "filter (\<lambda>l. trim l \<noteq> []) lines \<noteq> [] \<longleftrightarrow> (\<exists>l \<in> set lines. trim l \<noteq> [])"
    by (simp add: filter_empty_conv)
  show ?thesis
    unfolding contentToAppend_def Let_def f
    using join_block [OF assms, of "[LF]"] by auto
qed


lemma split_lines_keeps_lines:
  "\<exists>rest. split_lines (a @ b) = butlast (split_lines a) @ rest"
proof (cases "LF \<in> set b")
  case False
  then show ?thesis
    by (simp add: split_lines_append_noLF)
next
  case True
  then obtain r y where b: "b = r @ LF # y" and r: "LF \<notin> set r"
    by (auto dest: split_list_first)
  have "split_lines (a @ b) = split_lines ((a @ r) @ LF # y)"
    by (simp add: b)
  also have "\<dots> = butlast (split_lines (a @ r)) @ [strip_cr (last (split_lines (a @ r)))]
                    @ split_lines y"
    by (rule split_lines_append_LF)
  also have "butlast (split_lines (a @ r)) = butlast (split_lines a)"
    by (simp add: split_lines_append_noLF [OF r])
  finally show ?thesis by simp
qed

lemma update_read_failure:
  assumes "existsSync (store w) (path_join root FORCEIGNORE_FILENAME)"
    and "readFileSync (store w) (path_join root FORCEIGNORE_FILENAME) = None"
  shows "updateForceignoreFile w root batch =
           console_error ''Error reading {forceignorePath}:''
             [Path (path_join root FORCEIGNORE_FILENAME)] w"
  using assms by (simp add: updateForceignoreFile_def Let_def)

lemma update_store:
  assumes "(if existsSync (store w) (path_join root FORCEIGNORE_FILENAME)
            then map_option split_lines (readFileSync (store w) (path_join root FORCEIGNORE_FILENAME))
            else Some []) = Some lines"
  shows "store (updateForceignoreFile w root batch) =
     (if newRelativePaths root (existingEntries_of lines) batch = [] then store w
      else (case appendFileSync w (path_join root FORCEIGNORE_FILENAME)
                  (contentToAppend lines (newRelativePaths root (existingEntries_of lines) batch)) of
              Some w1 \<Rightarrow> store w1
            | None \<Rightarrow> store w))"
  using assms by (simp add: updateForceignoreFile_def Let_def split: option.splits)

lemma update_denied [simp]: "denied (updateForceignoreFile w root batch) = denied w"
  by (auto simp: updateForceignoreFile_def Let_def appendFileSync_Some(1) split: option.splits)

lemma existsSync_readFile: "readFileSync fs p = Some c \<Longrightarrow> existsSync fs p"
  by (auto simp: readFileSync_def existsSync_def statSync_def split: option.splits entry.splits)

lemma not_exists_cases:
  "\<not> existsSync fs p \<Longrightarrow> map_of fs p = None \<or> map_of fs p = Some Broken"
  by (auto simp: existsSync_def statSync_def split: option.splits entry.splits)

lemma readFileSync_map_of: "map_of fs = map_of fs' \<Longrightarrow> readFileSync fs = readFileSync fs'"
  by (simp add: readFileSync_def fun_eq_iff)

text \<open>
  C7. When \<^verbatim>\<open>updateForceignoreFile\<close> has at least one new path and the append does not
  raise, the ignore list afterwards is its old content (nothing, if there was no file)
  followed by one block: a line break if the last old line is not blank; then, only if no
  old line is the header comment, a line break when some old line is not blank, and the
  header comment on a line; then every new relative path followed by a line break.
\<close>

theorem ignore_list_block:
  assumes "readFileSync (store w) (path_join root FORCEIGNORE_FILENAME) = Some old \<and>
             lines = split_lines old
           \<or> \<not> existsSync (store w) (path_join root FORCEIGNORE_FILENAME) \<and> old = [] \<and> lines = []"
    and "news = newRelativePaths root (existingEntries_of lines) batch"
    and "news \<noteq> []"
    and "appendFileSync w (path_join root FORCEIGNORE_FILENAME) (contentToAppend lines news) \<noteq> None"
  shows "readFileSync (store (updateForceignoreFile w root batch)) (path_join root FORCEIGNORE_FILENAME) =
     Some (old @
       (if lines \<noteq> [] \<and> trim (last lines) \<noteq> [] then [LF] else []) @
       (if \<exists>l \<in> set lines. trim l = SCRIPT_IGNORE_COMMENT then []
        else (if \<exists>l \<in> set lines. trim l \<noteq> [] then [LF] else []) @ SCRIPT_IGNORE_COMMENT @ [LF]) @
       concat (map (\<lambda>p. p @ [LF]) news))"
proof -
  let ?fi = "path_join root FORCEIGNORE_FILENAME"
  from assms(4) obtain w1 where w1: "appendFileSync w ?fi (contentToAppend lines news) = Some w1"
    by auto
  have lines: "(if existsSync (store w) ?fi
            then map_option split_lines (readFileSync (store w) ?fi)
            else Some []) = Some lines"
    using assms(1) by (auto simp: existsSync_readFile)
  have st: "store (updateForceignoreFile w root batch) = store w1"
    using update_store [OF lines, of batch] assms(2,3) w1 by simp
  from appendFileSync_Some(3) [OF w1] obtain old' where
    old': "readFileSync (store w) ?fi = Some old' \<or> (map_of (store w) ?fi = None \<and> old' = [])"
    and m: "map_of (store w1) = (map_of (store w))(?fi \<mapsto> File (Some (old' @ contentToAppend lines news)))"
    by blast
  have "old' = old"
    using old' assms(1)
    by (auto simp: readFileSync_def existsSync_def statSync_def
          split: option.splits entry.splits)
  with m have "readFileSync (store w1) ?fi = Some (old @ contentToAppend lines news)"
    by (simp add: readFileSync_def)
  then show ?thesis
    by (simp add: st contentToAppend_closed [OF assms(3)] headerExists_def list_ex_iff)
qed


lemma remdups_snoc: "remdups (xs @ [r]) = remdups (filter (\<lambda>x. x \<noteq> r) xs) @ [r]"
  by (induction xs) auto

lemma newRelativePaths_first:
  "newRelativePaths root E batch =
     rev (remdups (rev (filter (\<lambda>r. r \<notin> E) (map (\<lambda>p. join ''/'' (path_relative root p)) batch))))"
proof (induction batch arbitrary: E)
  case Nil
  then show ?case by simp
next
  case (Cons a batch)
  let ?r = "join ''/'' (path_relative root a)"
  let ?rel = "map (\<lambda>p. join ''/'' (path_relative root p)) batch"
  show ?case
  proof (cases "?r \<in> E")
    case True
    with Cons [of E] show ?thesis by (simp add: Let_def)
  next
    case False
    have f: "filter (\<lambda>x. x \<noteq> ?r) (rev (filter (\<lambda>r. r \<notin> E) ?rel)) =
             rev (filter (\<lambda>r. r \<notin> insert ?r E) ?rel)"
      by (auto simp: rev_filter intro!: filter_cong)
    have "rev (remdups (rev (filter (\<lambda>r. r \<notin> E) (?r # ?rel)))) =
          rev (remdups (rev (filter (\<lambda>r. r \<notin> E) ?rel) @ [?r]))"
      using False by simp
    also have "\<dots> = ?r # rev (remdups (rev (filter (\<lambda>r. r \<notin> insert ?r E) ?rel)))"
      by (simp only: remdups_snoc f rev_append rev.simps append.simps)
    finally show ?thesis
      using False Cons [of "insert ?r E"] by (simp add: Let_def)
  qed
qed

lemma block_lines:
  assumes "news \<noteq> []"
  shows "\<exists>rest. split_lines (old @ contentToAppend (split_lines old) news) =
           butlast (split_lines old) @ rest \<and>
           (trim (last (split_lines old)) \<noteq> [] \<longrightarrow>
              rest \<noteq> [] \<and> hd rest = strip_cr (last (split_lines old)))"
proof (cases "trim (last (split_lines old)) \<noteq> []")
  case True
  then obtain y where y: "contentToAppend (split_lines old) news = LF # y"
    by (simp add: contentToAppend_closed [OF assms])
  have "split_lines (old @ LF # y) =
          butlast (split_lines old) @ (strip_cr (last (split_lines old)) # split_lines y)"
    by (simp add: split_lines_append_LF)
  with y show ?thesis by simp
next
  case False
  with split_lines_keeps_lines [of old "contentToAppend (split_lines old) news"]
  show ?thesis by blast
qed


lemma update_appends:
  assumes old: "readFileSync (store w) (path_join root FORCEIGNORE_FILENAME) = Some old"
    and news: "news = newRelativePaths root (existingEntries_of (split_lines old)) batch"
    and app: "app = (if news = [] \<or>
                  appendFileSync w (path_join root FORCEIGNORE_FILENAME)
                    (contentToAppend (split_lines old) news) = None
               then [] else contentToAppend (split_lines old) news)"
  shows "readFileSync (store (updateForceignoreFile w root batch))
           (path_join root FORCEIGNORE_FILENAME) = Some (old @ app)"
    and "q \<noteq> path_join root FORCEIGNORE_FILENAME \<Longrightarrow>
           map_of (store (updateForceignoreFile w root batch)) q = map_of (store w) q"
proof -
  let ?fi = "path_join root FORCEIGNORE_FILENAME"
  let ?w' = "updateForceignoreFile w root batch"
  let ?c = "contentToAppend (split_lines old) news"
  from old have lines: "(if existsSync (store w) ?fi
            then map_option split_lines (readFileSync (store w) ?fi)
            else Some []) = Some (split_lines old)"
    by (simp add: existsSync_readFile)
  note st = update_store [OF lines, of batch, folded news]
  have "readFileSync (store ?w') ?fi = Some (old @ app) \<and>
        (q \<noteq> ?fi \<longrightarrow> map_of (store ?w') q = map_of (store w) q)"
  proof (cases "news = [] \<or> appendFileSync w ?fi ?c = None")
    case True
    then have "store ?w' = store w" and "app = []"
      using st app by auto
    with old show ?thesis by simp
  next
    case False
    then obtain w1 where w1: "appendFileSync w ?fi ?c = Some w1"
      by auto
    with False have s: "store ?w' = store w1" and a: "app = ?c"
      using st app by auto
    from appendFileSync_Some(3) [OF w1] old
    have m: "map_of (store w1) = (map_of (store w))(?fi \<mapsto> File (Some (old @ ?c)))"
      by (auto simp: readFileSync_def)
    then show ?thesis
      by (simp add: s a readFileSync_def)
  qed
  then show "readFileSync (store ?w') ?fi = Some (old @ app)"
    and "q \<noteq> ?fi \<Longrightarrow> map_of (store ?w') q = map_of (store w) q"
    by blast+
qed

text \<open>
  C3. Over a readable ignore list, \<^verbatim>\<open>updateForceignoreFile\<close> leaves the old content in
  place and puts at most one block after it. A relative path is present when it is not
  empty, does not start with the comment sign and is what \<^verbatim>\<open>trim\<close> leaves of some line of
  the old content. The paths written are the relative paths of the batch that are not
  present, each once, in the order of their first occurrence; nothing is written when
  there is none or when the append raises. Every old line that ends in a line break
  is still there, unchanged and in order. The last old line, which has no line break
  after it, is kept when it is not blank, without the carriage return at its end if it
  has one and something is appended; a blank last line is continued by the block. No
  other path of the store changes.
\<close>

theorem ignore_list_append_only:
  assumes "readFileSync (store w) (path_join root FORCEIGNORE_FILENAME) = Some old"
    and "present = (\<lambda>r. r \<noteq> [] \<and> \<not> startsWith r ''#'' \<and>
                         (\<exists>l \<in> set (split_lines old). trim l = r))"
    and "news = rev (remdups (rev (filter (\<lambda>r. \<not> present r)
                   (map (\<lambda>p. join ''/'' (path_relative root p)) batch))))"
    and "block =
           (if trim (last (split_lines old)) \<noteq> [] then [LF] else []) @
           (if \<exists>l \<in> set (split_lines old). trim l = SCRIPT_IGNORE_COMMENT then []
            else (if \<exists>l \<in> set (split_lines old). trim l \<noteq> [] then [LF] else []) @
                 SCRIPT_IGNORE_COMMENT @ [LF]) @
           concat (map (\<lambda>r. r @ [LF]) news)"
    and "app = (if news = [] \<or>
                   appendFileSync w (path_join root FORCEIGNORE_FILENAME) block = None
                then [] else block)"
  shows "readFileSync (store (updateForceignoreFile w root batch))
           (path_join root FORCEIGNORE_FILENAME) = Some (old @ app) \<and>
         distinct news \<and>
         (\<forall>r \<in> set news. \<not> present r) \<and>
         set news = {r \<in> (\<lambda>p. join ''/'' (path_relative root p)) ` set batch. \<not> present r} \<and>
         (\<exists>rest. split_lines (old @ app) = butlast (split_lines old) @ rest \<and>
                 (trim (last (split_lines old)) \<noteq> [] \<longrightarrow>
                    rest \<noteq> [] \<and>
                    hd rest = (if app = [] then last (split_lines old)
                               else strip_cr (last (split_lines old))))) \<and>
         (\<forall>q. q \<noteq> path_join root FORCEIGNORE_FILENAME \<longrightarrow>
              map_of (store (updateForceignoreFile w root batch)) q = map_of (store w) q)"
proof -
  let ?fi = "path_join root FORCEIGNORE_FILENAME"
  let ?L = "split_lines old"
  have E: "existingEntries_of ?L = {r. present r}"
    using assms(2) by (auto simp: existingEntries_of_iff)
  have n: "news = newRelativePaths root (existingEntries_of ?L) batch"
    unfolding newRelativePaths_first E assms(3) by simp
  have b: "news \<noteq> [] \<Longrightarrow> block = contentToAppend ?L news"
    using assms(4) by (simp add: contentToAppend_closed headerExists_def list_ex_iff)
  have a: "app = (if news = [] \<or> appendFileSync w ?fi (contentToAppend ?L news) = None
                  then [] else contentToAppend ?L news)"
    using assms(5) b by auto
  note u = update_appends [OF assms(1) n a]
  have d: "distinct news" and p: "\<forall>r \<in> set news. \<not> present r"
    and s: "set news = {r \<in> (\<lambda>p. join ''/'' (path_relative root p)) ` set batch. \<not> present r}"
    using newRelativePaths_props [of root "existingEntries_of ?L" batch, folded n] E
    by auto
  have l: "\<exists>rest. split_lines (old @ app) = butlast ?L @ rest \<and>
                 (trim (last ?L) \<noteq> [] \<longrightarrow>
                    rest \<noteq> [] \<and> hd rest = (if app = [] then last ?L else strip_cr (last ?L)))"
  proof (cases "app = []")
    case True
    then have "split_lines (old @ app) = butlast ?L @ [last ?L]"
      by simp
    with True show ?thesis
      by (intro exI [of _ "[last ?L]"]) simp
  next
    case False
    with a have "news \<noteq> []" and "app = contentToAppend ?L news"
      by (auto split: if_splits)
    with block_lines [of news old] False show ?thesis by auto
  qed
  from u(1) d p s l u(2) show ?thesis by blast
qed



lemmas eval_defs =
  updateForceignoreFile_def path_join_def FORCEIGNORE_FILENAME_def existsSync_def
  statSync_def readFileSync_def Let_def existingEntries_of_def LF_def CR_def trim_def is_ws_def
  startsWith_def contentToAppend_def headerExists_def SCRIPT_IGNORE_COMMENT_def appendFileSync_def
  console_log_def console_error_def

theorem ignore_list_block_witness:
  "newRelativePaths [''proj''] (existingEntries_of (split_lines ''foo''))
      [[''proj'', ''a'', ''dataSourceObjects'', ''y.xml'']] = [''a/dataSourceObjects/y.xml'']
   \<and> readFileSync
        (store (updateForceignoreFile
           \<lparr>store = [([''proj''], Dir True), ([''proj'', ''.forceignore''], File (Some ''foo''))],
            denied = [], console = []\<rparr>
           [''proj''] [[''proj'', ''a'', ''dataSourceObjects'', ''y.xml'']]))
        [''proj'', ''.forceignore'']
      = Some (''foo'' @ [LF] @ [LF] @ ''# Entries added by cleanupDataSourceObjects.js'' @ [LF]
              @ ''a/dataSourceObjects/y.xml'' @ [LF])"
proof -
  let ?w = "\<lparr>store = [([''proj''], Dir True), ([''proj'', ''.forceignore''], File (Some ''foo''))],
            denied = [], console = []\<rparr>"
  let ?batch = "[[''proj'', ''a'', ''dataSourceObjects'', ''y.xml'']]"
  have h1: "readFileSync (store ?w) (path_join [''proj''] FORCEIGNORE_FILENAME) = Some ''foo'' \<and>
             split_lines ''foo'' = split_lines ''foo''
           \<or> \<not> existsSync (store ?w) (path_join [''proj''] FORCEIGNORE_FILENAME) \<and> ''foo'' = [] \<and>
             split_lines ''foo'' = []"
    by (simp add: eval_defs)
  have h2: "newRelativePaths [''proj''] (existingEntries_of (split_lines ''foo'')) ?batch =
      [''a/dataSourceObjects/y.xml'']"
    by (simp add: eval_defs)
  have h3: "[''a/dataSourceObjects/y.xml''] \<noteq> []"
    by simp
  have h4: "appendFileSync ?w (path_join [''proj''] FORCEIGNORE_FILENAME)
              (contentToAppend (split_lines ''foo'') [''a/dataSourceObjects/y.xml'']) \<noteq> None"
    by (simp add: eval_defs)
  have e0: "split_lines ''foo'' = [''foo'']"
    by (simp add: LF_def CR_def)
  have e1: "trim ''foo'' = ''foo''"
    by (simp add: trim_def is_ws_def)
  have e2: "''foo'' \<noteq> SCRIPT_IGNORE_COMMENT"
    by (simp add: SCRIPT_IGNORE_COMMENT_def)
  note c = ignore_list_block [OF h1 h2 [symmetric] h3 h4, unfolded e0]
  have c': "readFileSync
        (store (updateForceignoreFile ?w [''proj''] ?batch))
        (path_join [''proj''] FORCEIGNORE_FILENAME)
      = Some (''foo'' @ [LF] @ [LF] @ SCRIPT_IGNORE_COMMENT @ [LF]
              @ ''a/dataSourceObjects/y.xml'' @ [LF])"
    using c e1 e2 by simp
  show ?thesis
    using c' h2 by (simp add: path_join_def FORCEIGNORE_FILENAME_def SCRIPT_IGNORE_COMMENT_def)
qed


theorem ignore_list_append_only_witness:
  "readFileSync
     (store \<lparr>store = [([''proj''], Dir True),
                      ([''proj'', ''.forceignore''],
                       File (Some (''  a/dataSourceObjects/y.xml  '' @ [LF])))],
             denied = [], console = []\<rparr>)
     (path_join [''proj''] FORCEIGNORE_FILENAME) = Some (''  a/dataSourceObjects/y.xml  '' @ [LF])
   \<and> readFileSync
       (store (updateForceignoreFile
          \<lparr>store = [([''proj''], Dir True),
                    ([''proj'', ''.forceignore''],
                     File (Some (''  a/dataSourceObjects/y.xml  '' @ [LF])))],
           denied = [], console = []\<rparr>
          [''proj'']
          [[''proj'', ''a'', ''dataSourceObjects'', ''y.xml''],
           [''proj'', ''a'', ''dataSourceObjects'', ''z.xml''],
           [''proj'', ''a'', ''dataSourceObjects'', ''z.xml'']]))
       (path_join [''proj''] FORCEIGNORE_FILENAME)
     = Some ((''  a/dataSourceObjects/y.xml  '' @ [LF]) @
             [LF] @ ''# Entries added by cleanupDataSourceObjects.js'' @ [LF] @
             ''a/dataSourceObjects/z.xml'' @ [LF])"
proof -
  let ?old = "''  a/dataSourceObjects/y.xml  '' @ [LF]"
  let ?w = "\<lparr>store = [([''proj''], Dir True), ([''proj'', ''.forceignore''], File (Some ?old))],
            denied = [], console = []\<rparr>"
  let ?B = "[[''proj'', ''a'', ''dataSourceObjects'', ''y.xml''],
             [''proj'', ''a'', ''dataSourceObjects'', ''z.xml''],
             [''proj'', ''a'', ''dataSourceObjects'', ''z.xml'']]"
  let ?blk = "[LF] @ ''# Entries added by cleanupDataSourceObjects.js'' @ [LF] @
              ''a/dataSourceObjects/z.xml'' @ [LF]"
  have fi: "path_join [''proj''] FORCEIGNORE_FILENAME = [''proj'', ''.forceignore'']"
    by (simp add: path_join_def FORCEIGNORE_FILENAME_def)
  have h: "readFileSync (store ?w) (path_join [''proj''] FORCEIGNORE_FILENAME) = Some ?old"
    by (simp add: readFileSync_def fi)
  have e0: "split_lines ?old = [''  a/dataSourceObjects/y.xml  '', []]"
    by (simp add: LF_def CR_def)
  have e1: "trim ''  a/dataSourceObjects/y.xml  '' = ''a/dataSourceObjects/y.xml''" "trim [] = []"
    by (simp_all add: trim_def is_ws_def)
  have e2: "map (\<lambda>p. join ''/'' (path_relative [''proj''] p)) ?B =
            [''a/dataSourceObjects/y.xml'', ''a/dataSourceObjects/z.xml'', ''a/dataSourceObjects/z.xml'']"
    by simp
  have e3: "\<not> startsWith ''a/dataSourceObjects/y.xml'' ''#''"
    by (simp add: startsWith_def)
  have e4: "rev (remdups (rev (filter
              (\<lambda>r. \<not> (r \<noteq> [] \<and> \<not> startsWith r ''#'' \<and>
                        (\<exists>l \<in> set (split_lines ?old). trim l = r)))
              (map (\<lambda>p. join ''/'' (path_relative [''proj''] p)) ?B)))) =
            [''a/dataSourceObjects/z.xml'']"
    unfolding e0 e2 using e3 by (simp add: e1)
  have e5: "(if trim (last (split_lines ?old)) \<noteq> [] then [LF] else []) @
           (if \<exists>l \<in> set (split_lines ?old). trim l = SCRIPT_IGNORE_COMMENT then []
            else (if \<exists>l \<in> set (split_lines ?old). trim l \<noteq> [] then [LF] else []) @
                 SCRIPT_IGNORE_COMMENT @ [LF]) @
           concat (map (\<lambda>r. r @ [LF]) [''a/dataSourceObjects/z.xml'']) = ?blk"
    unfolding e0 by (simp add: e1 SCRIPT_IGNORE_COMMENT_def)
  have e6: "appendFileSync ?w (path_join [''proj''] FORCEIGNORE_FILENAME) ?blk \<noteq> None"
    by (simp add: appendFileSync_def fi)
  note t = ignore_list_append_only [where batch = ?B, OF h refl refl refl refl, THEN conjunct1]
  have "readFileSync (store (updateForceignoreFile ?w [''proj''] ?B))
          (path_join [''proj''] FORCEIGNORE_FILENAME) = Some (?old @ ?blk)"
    using t e6 unfolding e4 e5 by simp
  with h show ?thesis by simp
qed

text \<open>
  C3 as stated fails for an ignore list whose last line is blank without being empty:
  the block is appended to that line, so a line of two spaces becomes the header line
  with two spaces in front of it.
\<close>

theorem ignore_list_append_only_counterexample:
  "readFileSync
     (store \<lparr>store = [([''proj''], Dir True), ([''proj'', ''.forceignore''], File (Some ''  ''))],
             denied = [], console = []\<rparr>)
     [''proj'', ''.forceignore''] = Some ''  ''
   \<and> split_lines ''  '' = [''  '']
   \<and> readFileSync
       (store (updateForceignoreFile
          \<lparr>store = [([''proj''], Dir True), ([''proj'', ''.forceignore''], File (Some ''  ''))],
           denied = [], console = []\<rparr>
          [''proj''] [[''proj'', ''a'', ''dataSourceObjects'', ''y.xml'']]))
       [''proj'', ''.forceignore'']
     = Some (''  # Entries added by cleanupDataSourceObjects.js'' @ [LF] @
             ''a/dataSourceObjects/y.xml'' @ [LF])
   \<and> split_lines (''  # Entries added by cleanupDataSourceObjects.js'' @ [LF] @
                   ''a/dataSourceObjects/y.xml'' @ [LF])
     = [''  # Entries added by cleanupDataSourceObjects.js'', ''a/dataSourceObjects/y.xml'', []]
   \<and> ''  '' \<notin> set [''  # Entries added by cleanupDataSourceObjects.js'',
                      ''a/dataSourceObjects/y.xml'', []]"
proof -
  let ?w = "\<lparr>store = [([''proj''], Dir True), ([''proj'', ''.forceignore''], File (Some ''  ''))],
            denied = [], console = []\<rparr>"
  let ?B = "[[''proj'', ''a'', ''dataSourceObjects'', ''y.xml'']]"
  let ?blk = "''# Entries added by cleanupDataSourceObjects.js'' @ [LF] @
              ''a/dataSourceObjects/y.xml'' @ [LF]"
  have fi: "path_join [''proj''] FORCEIGNORE_FILENAME = [''proj'', ''.forceignore'']"
    by (simp add: path_join_def FORCEIGNORE_FILENAME_def)
  have h: "readFileSync (store ?w) (path_join [''proj''] FORCEIGNORE_FILENAME) = Some ''  ''"
    by (simp add: readFileSync_def fi)
  have e0: "split_lines ''  '' = [''  '']"
    by (simp add: LF_def CR_def)
  have e1: "trim ''  '' = []"
    by (simp add: trim_def is_ws_def)
  have n: "newRelativePaths [''proj''] (existingEntries_of (split_lines ''  '')) ?B =
           [''a/dataSourceObjects/y.xml'']"
    unfolding e0 by (simp add: existingEntries_of_def e1)
  have c: "contentToAppend (split_lines ''  '') [''a/dataSourceObjects/y.xml''] = ?blk"
    unfolding e0
    by (simp add: contentToAppend_def headerExists_def e1 SCRIPT_IGNORE_COMMENT_def)
  have a: "appendFileSync ?w (path_join [''proj''] FORCEIGNORE_FILENAME) ?blk \<noteq> None"
    by (simp add: appendFileSync_def fi)
  have "readFileSync (store (updateForceignoreFile ?w [''proj''] ?B))
          (path_join [''proj''] FORCEIGNORE_FILENAME) = Some (''  '' @ ?blk)"
    using update_appends(1) [OF h n [symmetric] refl] a unfolding c by simp
  then have r: "readFileSync (store (updateForceignoreFile ?w [''proj''] ?B))
          [''proj'', ''.forceignore''] =
          Some (''  # Entries added by cleanupDataSourceObjects.js'' @ [LF] @
                ''a/dataSourceObjects/y.xml'' @ [LF])"
    by (simp add: fi)
  have l: "split_lines (''  # Entries added by cleanupDataSourceObjects.js'' @ [LF] @
                   ''a/dataSourceObjects/y.xml'' @ [LF])
     = [''  # Entries added by cleanupDataSourceObjects.js'', ''a/dataSourceObjects/y.xml'', []]"
    by (simp add: LF_def CR_def)
  have m: "''  '' \<notin> set [''  # Entries added by cleanupDataSourceObjects.js'',
                      ''a/dataSourceObjects/y.xml'', []]"
    by simp
  from h [unfolded fi] e0 r l m show ?thesis by blast
qed

section \<open>Running the writer twice\<close>

lemma entries_clean: "clean_entry r \<Longrightarrow> existingEntries_of (split_lines r) = {r}"
  by (simp add: clean_entry_def split_lines_noLF existingEntries_of_single)

lemma entries_Nil [simp]: "existingEntries_of [[]] = {}" "existingEntries_of [] = {}"
  by (simp_all add: existingEntries_of_def trim_def)

lemma entries_block:
  "\<forall>r \<in> set news. clean_entry r \<Longrightarrow>
   existingEntries_of (split_lines (concat (map (\<lambda>p. p @ [LF]) news))) = set news"
  by (induction news) (auto simp: entries_append_LF entries_clean)

lemma entries_lines_sub:
  "lines = split_lines old \<or> lines = [] \<Longrightarrow>
   existingEntries_of lines \<subseteq> existingEntries_of (split_lines old)"
  by auto

lemma entries_blank_last:
  assumes "trim (last (split_lines old)) = []" and "clean_entry r"
  shows "existingEntries_of (split_lines (old @ r)) = existingEntries_of (split_lines old) \<union> {r}"
proof -
  from assms(2) have noLF: "LF \<notin> set r" and tr: "trim r = r" "r \<noteq> []" "\<not> startsWith r ''#''"
    by (simp_all add: clean_entry_def)
  from assms(1) have "trim (last (split_lines old) @ r) = r"
    by (simp add: trim_eq_Nil trim_ws_append tr)
  then have a: "existingEntries_of [last (split_lines old) @ r] = {r}"
    using tr by (simp add: existingEntries_of_single)
  have b: "existingEntries_of [last (split_lines old)] = {}"
    using assms(1) by (simp add: existingEntries_of_single)
  have "existingEntries_of (split_lines old) =
        existingEntries_of (butlast (split_lines old) @ [last (split_lines old)])"
    by simp
  also have "\<dots> = existingEntries_of (butlast (split_lines old))"
    by (simp only: existingEntries_of_append b) simp
  finally have c: "existingEntries_of (split_lines old) = existingEntries_of (butlast (split_lines old))" .
  show ?thesis
    by (simp add: split_lines_append_noLF [OF noLF] existingEntries_of_append a c)
qed

lemma entries_after_append:
  assumes lines: "lines = split_lines old \<or> (lines = [] \<and> old = [])"
    and ne: "news \<noteq> []"
    and clean: "\<forall>r \<in> set news. clean_entry r"
  shows "existingEntries_of lines \<union> set news
         \<subseteq> existingEntries_of (split_lines (old @ contentToAppend lines news))"
proof -
  let ?block = "concat (map (\<lambda>p. p @ [LF]) news)"
  let ?hdr = "(if \<exists>l \<in> set lines. trim l \<noteq> [] then [LF] else []) @ SCRIPT_IGNORE_COMMENT @ [LF]"
  have E: "existingEntries_of lines \<subseteq> existingEntries_of (split_lines old)"
    using lines by auto
  have B: "existingEntries_of (split_lines ?block) = set news"
    by (rule entries_block [OF clean])
  have after_LF: "existingEntries_of lines \<union> set news
      \<subseteq> existingEntries_of (split_lines (old @ LF # y))"
    if "set news \<subseteq> existingEntries_of (split_lines y)" for y
    using that E by (auto simp: entries_append_LF)
  have hdrB: "set news \<subseteq> existingEntries_of (split_lines (z @ LF # ?block))" for z
    by (simp add: entries_append_LF B)
  note cf = contentToAppend_closed [OF ne, of lines]
  show ?thesis
  proof (cases "lines \<noteq> [] \<and> trim (last lines) \<noteq> []")
    case True
    show ?thesis
    proof (cases "headerExists lines")
      case h: True
      with True have "old @ contentToAppend lines news = old @ LF # ?block"
        by (simp add: cf)
      with after_LF [of ?block] B show ?thesis by simp
    next
      case h: False
      with True have "old @ contentToAppend lines news = old @ LF # (?hdr @ ?block)"
        by (simp add: cf)
      moreover have "set news \<subseteq> existingEntries_of (split_lines (?hdr @ ?block))"
        using hdrB [of "(if \<exists>l \<in> set lines. trim l \<noteq> [] then [LF] else []) @ SCRIPT_IGNORE_COMMENT"]
        by simp
      ultimately show ?thesis
        using after_LF [of "?hdr @ ?block"] by simp
    qed
  next
    case False
    show ?thesis
    proof (cases "headerExists lines")
      case h: True
      then have lne: "lines \<noteq> []"
        by (auto simp: headerExists_def)
      with lines False have l: "lines = split_lines old" and bl: "trim (last (split_lines old)) = []"
        by auto
      from ne obtain r rs where news: "news = r # rs"
        by (cases news) auto
      with clean have cr: "clean_entry r" and crs: "\<forall>r \<in> set rs. clean_entry r"
        by auto
      from h False have "old @ contentToAppend lines news = old @ ?block"
        by (simp add: cf)
      also have "\<dots> = (old @ r) @ LF # concat (map (\<lambda>p. p @ [LF]) rs)"
        by (simp add: news)
      finally have "existingEntries_of (split_lines (old @ contentToAppend lines news)) =
          existingEntries_of (split_lines (old @ r))
          \<union> existingEntries_of (split_lines (concat (map (\<lambda>p. p @ [LF]) rs)))"
        by (simp only: entries_append_LF)
      also have "\<dots> = existingEntries_of (split_lines old) \<union> {r} \<union> set rs"
        by (simp add: entries_blank_last [OF bl cr] entries_block [OF crs])
      finally show ?thesis
        using l news by auto
    next
      case h: False
      show ?thesis
      proof (cases "\<exists>l \<in> set lines. trim l \<noteq> []")
        case True
        with h False have "old @ contentToAppend lines news
                           = old @ LF # (SCRIPT_IGNORE_COMMENT @ LF # ?block)"
          by (simp add: cf)
        with after_LF [of "SCRIPT_IGNORE_COMMENT @ LF # ?block"] hdrB [of SCRIPT_IGNORE_COMMENT]
        show ?thesis by simp
      next
        case nb: False
        then have "existingEntries_of lines = {}"
          by (auto simp: existingEntries_of_iff)
        moreover from h False nb have "old @ contentToAppend lines news
                           = (old @ SCRIPT_IGNORE_COMMENT) @ LF # ?block"
          by (simp add: cf)
        ultimately show ?thesis
          using hdrB [of "old @ SCRIPT_IGNORE_COMMENT"] by simp
      qed
    qed
  qed
qed


lemma appendFileSync_cong:
  "store w' = store w \<Longrightarrow> denied w' = denied w \<Longrightarrow>
   map_option store (appendFileSync w' p d) = map_option store (appendFileSync w p d)"
  by (simp add: appendFileSync_def split: option.splits entry.splits)

lemma appendFileSync_ok:
  "p \<notin> set (denied w) \<Longrightarrow> readFileSync (store w) p = Some old \<Longrightarrow>
   appendFileSync w p d \<noteq> None"
  by (auto simp: appendFileSync_def readFileSync_def split: option.splits entry.splits)

lemma appendFileSync_create_ok:
  "p \<notin> set (denied w) \<Longrightarrow> map_of (store w) p = None \<Longrightarrow>
   map_of (store w) (butlast p) = Some (Dir b) \<Longrightarrow> appendFileSync w p d \<noteq> None"
  by (auto simp: appendFileSync_def)

lemma update_content:
  assumes "readFileSync (store w) (path_join root FORCEIGNORE_FILENAME) = Some old \<and>
             lines = split_lines old
           \<or> \<not> existsSync (store w) (path_join root FORCEIGNORE_FILENAME) \<and> old = [] \<and> lines = []"
    and "news = newRelativePaths root (existingEntries_of lines) batch"
    and "news \<noteq> []"
    and "appendFileSync w (path_join root FORCEIGNORE_FILENAME) (contentToAppend lines news) \<noteq> None"
  shows "readFileSync (store (updateForceignoreFile w root batch)) (path_join root FORCEIGNORE_FILENAME) =
     Some (old @ contentToAppend lines news)"
proof -
  let ?fi = "path_join root FORCEIGNORE_FILENAME"
  from assms(4) obtain w1 where w1: "appendFileSync w ?fi (contentToAppend lines news) = Some w1"
    by auto
  have lines: "(if existsSync (store w) ?fi
            then map_option split_lines (readFileSync (store w) ?fi)
            else Some []) = Some lines"
    using assms(1) by (auto simp: existsSync_readFile)
  have st: "store (updateForceignoreFile w root batch) = store w1"
    using update_store [OF lines, of batch] assms(2,3) w1 by simp
  from appendFileSync_Some(3) [OF w1] obtain old' where
    old': "readFileSync (store w) ?fi = Some old' \<or> (map_of (store w) ?fi = None \<and> old' = [])"
    and m: "map_of (store w1) = (map_of (store w))(?fi \<mapsto> File (Some (old' @ contentToAppend lines news)))"
    by blast
  have "old' = old"
    using old' assms(1)
    by (auto simp: readFileSync_def existsSync_def statSync_def
          split: option.splits entry.splits)
  with m have "readFileSync (store w1) ?fi = Some (old @ contentToAppend lines news)"
    by (simp add: readFileSync_def)
  then show ?thesis
    by (simp add: st)
qed

lemma update_nothing_new:
  assumes "readFileSync (store w) (path_join root FORCEIGNORE_FILENAME) = Some old"
    and "(\<lambda>p. join ''/'' (path_relative root p)) ` set batch
           \<subseteq> existingEntries_of (split_lines old)"
  shows "updateForceignoreFile w root batch =
           console_log ''No new unique file paths to add to''
             [Path (path_join root FORCEIGNORE_FILENAME)] w"
  using assms
  by (simp add: updateForceignoreFile_def Let_def existsSync_readFile newRelativePaths_Nil)

lemma update_twice_store:
  assumes clean: "\<forall>p \<in> set batch. clean_entry (join ''/'' (path_relative root p))"
  shows "store (updateForceignoreFile (updateForceignoreFile w root batch) root batch)
         = store (updateForceignoreFile w root batch)"
proof -
  let ?fi = "path_join root FORCEIGNORE_FILENAME"
  let ?U = "updateForceignoreFile w root batch"
  let ?rel = "\<lambda>p. join ''/'' (path_relative root p)"
  show ?thesis
  proof (cases "existsSync (store w) ?fi \<and> readFileSync (store w) ?fi = None")
    case True
    then have "store ?U = store w"
      by (simp add: update_read_failure)
    with True have "existsSync (store ?U) ?fi" "readFileSync (store ?U) ?fi = None"
      by simp_all
    then show ?thesis
      by (simp add: update_read_failure)
  next
    case False
    then obtain lines where lines: "(if existsSync (store w) ?fi
            then map_option split_lines (readFileSync (store w) ?fi)
            else Some []) = Some lines"
      by (cases "readFileSync (store w) ?fi") (auto simp: existsSync_readFile)
    let ?news = "newRelativePaths root (existingEntries_of lines) batch"
    note us = update_store [OF lines, of batch]
    show ?thesis
    proof (cases "?news = [] \<or> appendFileSync w ?fi (contentToAppend lines ?news) = None")
      case True
      then have same: "store ?U = store w"
        using us by auto
      have lines': "(if existsSync (store ?U) ?fi
            then map_option split_lines (readFileSync (store ?U) ?fi)
            else Some []) = Some lines"
        unfolding same by (rule lines)
      from same have "map_option store (appendFileSync ?U ?fi (contentToAppend lines ?news))
                    = map_option store (appendFileSync w ?fi (contentToAppend lines ?news))"
        by (intro appendFileSync_cong) simp_all
      with True have "?news = [] \<or> appendFileSync ?U ?fi (contentToAppend lines ?news) = None"
        by auto
      then show ?thesis
        using update_store [OF lines', of batch] by auto
    next
      case ok: False
      then have ne: "?news \<noteq> []"
        and app: "appendFileSync w ?fi (contentToAppend lines ?news) \<noteq> None"
        by auto
      from app obtain w1 where w1: "appendFileSync w ?fi (contentToAppend lines ?news) = Some w1"
        by auto
      define old where "old = (case readFileSync (store w) ?fi of Some c \<Rightarrow> c | None \<Rightarrow> [])"
      have hyp: "readFileSync (store w) ?fi = Some old \<and> lines = split_lines old
           \<or> \<not> existsSync (store w) ?fi \<and> old = [] \<and> lines = []"
      proof (cases "existsSync (store w) ?fi")
        case True
        with False lines show ?thesis
          by (auto simp: old_def)
      next
        case ne: False
        then have "readFileSync (store w) ?fi = None"
          by (metis existsSync_readFile not_Some_eq)
        with ne lines show ?thesis
          by (auto simp: old_def)
      qed
      have content: "readFileSync (store ?U) ?fi = Some (old @ contentToAppend lines ?news)"
        by (rule update_content [OF hyp refl ne app])
      have props: "set ?news \<inter> existingEntries_of lines = {}"
        "set ?news \<union> existingEntries_of lines = ?rel ` set batch \<union> existingEntries_of lines"
        using newRelativePaths_props [of root "existingEntries_of lines" batch] by simp_all
      then have sub: "set ?news \<subseteq> ?rel ` set batch" and cover:
        "?rel ` set batch \<subseteq> existingEntries_of lines \<union> set ?news"
        by auto
      from sub clean have cl: "\<forall>r \<in> set ?news. clean_entry r"
        by auto
      have "existingEntries_of lines \<union> set ?news
            \<subseteq> existingEntries_of (split_lines (old @ contentToAppend lines ?news))"
        by (rule entries_after_append [OF _ ne cl]) (use hyp in auto)
      with cover have "?rel ` set batch
            \<subseteq> existingEntries_of (split_lines (old @ contentToAppend lines ?news))"
        by blast
      from update_nothing_new [OF content this] show ?thesis
        by simp
    qed
  qed
qed


text \<open>
  C4, as amended. When every relative path of the batch is a clean entry, a second run of
  \<^verbatim>\<open>updateForceignoreFile\<close> with the same batch on the world the first run left leaves
  the store as it is. And whenever every relative path of the batch is already an entry
  of a readable ignore list, the run only writes the message that there is nothing new:
  \<^verbatim>\<open>appendFileSync\<close> is not called.
\<close>

theorem ignore_list_idempotent:
  "((\<forall>p \<in> set batch. clean_entry (join ''/'' (path_relative root p))) \<longrightarrow>
      store (updateForceignoreFile (updateForceignoreFile w root batch) root batch)
        = store (updateForceignoreFile w root batch)) \<and>
   (readFileSync (store w) (path_join root FORCEIGNORE_FILENAME) = Some old \<and>
    (\<lambda>p. join ''/'' (path_relative root p)) ` set batch \<subseteq> existingEntries_of (split_lines old) \<longrightarrow>
      updateForceignoreFile w root batch =
        console_log ''No new unique file paths to add to''
          [Path (path_join root FORCEIGNORE_FILENAME)] w)"
  using update_twice_store [of batch root w] update_nothing_new [of w root old batch]
  by blast

lemma counterexample_first_run:
  "readFileSync
     (store (updateForceignoreFile \<lparr>store = [([''proj''], Dir True)], denied = [], console = []\<rparr>
        [''proj''] [[''proj'', ''dataSourceObjects'', ''y.xml '']]))
     [''proj'', ''.forceignore'']
   = Some (''# Entries added by cleanupDataSourceObjects.js'' @ [LF] @ ''dataSourceObjects/y.xml '' @ [LF])"
proof -
  let ?w = "\<lparr>store = [([''proj''], Dir True)], denied = [], console = []\<rparr>"
  let ?B = "[[''proj'', ''dataSourceObjects'', ''y.xml '']]"
  have h1: "readFileSync (store ?w) (path_join [''proj''] FORCEIGNORE_FILENAME) = Some [] \<and>
             [] = split_lines []
           \<or> \<not> existsSync (store ?w) (path_join [''proj''] FORCEIGNORE_FILENAME) \<and> [] = [] \<and>
             ([]::string list) = []"
    by (simp add: existsSync_def statSync_def path_join_def)
  have h2: "newRelativePaths [''proj''] (existingEntries_of []) ?B = [''dataSourceObjects/y.xml '']"
    by simp
  have h4: "appendFileSync ?w (path_join [''proj''] FORCEIGNORE_FILENAME)
              (contentToAppend [] [''dataSourceObjects/y.xml '']) \<noteq> None"
    by (rule appendFileSync_create_ok [where b = True]) (simp_all add: path_join_def)
  have c: "contentToAppend [] [''dataSourceObjects/y.xml '']
       = SCRIPT_IGNORE_COMMENT @ [LF] @ ''dataSourceObjects/y.xml '' @ [LF]"
    by (simp add: contentToAppend_def headerExists_def)
  from update_content [OF h1 h2 [symmetric] _ h4] show ?thesis
    by (simp add: c path_join_def FORCEIGNORE_FILENAME_def SCRIPT_IGNORE_COMMENT_def)
qed


lemma counterexample_lines:
  "split_lines (''# Entries added by cleanupDataSourceObjects.js'' @ [LF] @ ''dataSourceObjects/y.xml '' @ [LF])
   = [''# Entries added by cleanupDataSourceObjects.js'', ''dataSourceObjects/y.xml '', []]"
  by (simp add: LF_def CR_def)

lemma counterexample_entries:
  "existingEntries_of
     [''# Entries added by cleanupDataSourceObjects.js'', ''dataSourceObjects/y.xml '', []]
   = {''dataSourceObjects/y.xml''}"
  by (simp add: existingEntries_of_def trim_def is_ws_def startsWith_def)

lemma counterexample_second_run:
  "readFileSync
     (store (updateForceignoreFile
        (updateForceignoreFile \<lparr>store = [([''proj''], Dir True)], denied = [], console = []\<rparr>
           [''proj''] [[''proj'', ''dataSourceObjects'', ''y.xml '']])
        [''proj''] [[''proj'', ''dataSourceObjects'', ''y.xml '']]))
     [''proj'', ''.forceignore'']
   = Some (''# Entries added by cleanupDataSourceObjects.js'' @ [LF] @ ''dataSourceObjects/y.xml '' @ [LF]
           @ ''dataSourceObjects/y.xml '' @ [LF])"
proof -
  let ?w = "\<lparr>store = [([''proj''], Dir True)], denied = [], console = []\<rparr>"
  let ?B = "[[''proj'', ''dataSourceObjects'', ''y.xml '']]"
  let ?w' = "updateForceignoreFile ?w [''proj''] ?B"
  let ?X = "''# Entries added by cleanupDataSourceObjects.js'' @ [LF] @ ''dataSourceObjects/y.xml '' @ [LF]"
  let ?lines = "[''# Entries added by cleanupDataSourceObjects.js'', ''dataSourceObjects/y.xml '', []]"
  have fi: "path_join [''proj''] FORCEIGNORE_FILENAME = [''proj'', ''.forceignore'']"
    by (simp add: path_join_def FORCEIGNORE_FILENAME_def)
  have r: "readFileSync (store ?w') (path_join [''proj''] FORCEIGNORE_FILENAME) = Some ?X"
    unfolding fi by (rule counterexample_first_run)
  have h1: "readFileSync (store ?w') (path_join [''proj''] FORCEIGNORE_FILENAME) = Some ?X \<and>
             ?lines = split_lines ?X
           \<or> \<not> existsSync (store ?w') (path_join [''proj''] FORCEIGNORE_FILENAME) \<and> ?X = [] \<and>
             ?lines = []"
    using r counterexample_lines by simp
  have h2: "newRelativePaths [''proj''] (existingEntries_of ?lines) ?B = [''dataSourceObjects/y.xml '']"
    by (simp add: counterexample_entries)
  have h4: "appendFileSync ?w' (path_join [''proj''] FORCEIGNORE_FILENAME)
              (contentToAppend ?lines [''dataSourceObjects/y.xml '']) \<noteq> None"
    by (rule appendFileSync_ok [OF _ r]) simp
  have c: "contentToAppend ?lines [''dataSourceObjects/y.xml ''] = ''dataSourceObjects/y.xml '' @ [LF]"
    by (simp add: contentToAppend_def headerExists_def SCRIPT_IGNORE_COMMENT_def trim_def is_ws_def)
  from update_content [OF h1 h2 [symmetric] _ h4] show ?thesis
    by (simp add: c fi)
qed

text \<open>
  C4 as stated fails for a file name that ends in a space: the entry read back is the
  trimmed line, the relative path compared with it is not trimmed, so the second run
  appends the path again.
\<close>

theorem ignore_list_idempotent_counterexample:
  "store (updateForceignoreFile
        (updateForceignoreFile \<lparr>store = [([''proj''], Dir True)], denied = [], console = []\<rparr>
           [''proj''] [[''proj'', ''dataSourceObjects'', ''y.xml '']])
        [''proj''] [[''proj'', ''dataSourceObjects'', ''y.xml '']])
   \<noteq> store (updateForceignoreFile \<lparr>store = [([''proj''], Dir True)], denied = [], console = []\<rparr>
           [''proj''] [[''proj'', ''dataSourceObjects'', ''y.xml '']])"
proof
  assume "store (updateForceignoreFile
        (updateForceignoreFile \<lparr>store = [([''proj''], Dir True)], denied = [], console = []\<rparr>
           [''proj''] [[''proj'', ''dataSourceObjects'', ''y.xml '']])
        [''proj''] [[''proj'', ''dataSourceObjects'', ''y.xml '']])
   = store (updateForceignoreFile \<lparr>store = [([''proj''], Dir True)], denied = [], console = []\<rparr>
           [''proj''] [[''proj'', ''dataSourceObjects'', ''y.xml '']])"
  with counterexample_first_run counterexample_second_run
  show False by simp
qed


theorem ignore_list_idempotent_witness:
  "clean_entry (join ''/'' (path_relative [''proj''] [''proj'', ''a'', ''dataSourceObjects'', ''y.xml'']))
   \<and> store (updateForceignoreFile
        (updateForceignoreFile \<lparr>store = [([''proj''], Dir True)], denied = [], console = []\<rparr>
           [''proj''] [[''proj'', ''a'', ''dataSourceObjects'', ''y.xml'']])
        [''proj''] [[''proj'', ''a'', ''dataSourceObjects'', ''y.xml'']])
     = store (updateForceignoreFile \<lparr>store = [([''proj''], Dir True)], denied = [], console = []\<rparr>
           [''proj''] [[''proj'', ''a'', ''dataSourceObjects'', ''y.xml'']])
   \<and> readFileSync
        (store \<lparr>store = [([''proj''], Dir True),
                          ([''proj'', ''.forceignore''], File (Some ''a/dataSourceObjects/y.xml''))],
                 denied = [], console = []\<rparr>)
        (path_join [''proj''] FORCEIGNORE_FILENAME) = Some ''a/dataSourceObjects/y.xml''
   \<and> (\<lambda>p. join ''/'' (path_relative [''proj''] p)) ` set [[''proj'', ''a'', ''dataSourceObjects'', ''y.xml'']]
        \<subseteq> existingEntries_of (split_lines ''a/dataSourceObjects/y.xml'')
   \<and> updateForceignoreFile
        \<lparr>store = [([''proj''], Dir True),
                  ([''proj'', ''.forceignore''], File (Some ''a/dataSourceObjects/y.xml''))],
         denied = [], console = []\<rparr>
        [''proj''] [[''proj'', ''a'', ''dataSourceObjects'', ''y.xml'']]
      = console_log ''No new unique file paths to add to''
          [Path (path_join [''proj''] FORCEIGNORE_FILENAME)]
          \<lparr>store = [([''proj''], Dir True),
                    ([''proj'', ''.forceignore''], File (Some ''a/dataSourceObjects/y.xml''))],
           denied = [], console = []\<rparr>"
proof -
  let ?B = "[[''proj'', ''a'', ''dataSourceObjects'', ''y.xml'']]"
  let ?w' = "\<lparr>store = [([''proj''], Dir True),
                    ([''proj'', ''.forceignore''], File (Some ''a/dataSourceObjects/y.xml''))],
           denied = [], console = []\<rparr>"
  have h1: "\<forall>p \<in> set ?B. clean_entry (join ''/'' (path_relative [''proj''] p))"
    by (simp add: clean_entry_def trim_def is_ws_def startsWith_def LF_def)
  have h2: "readFileSync (store ?w') (path_join [''proj''] FORCEIGNORE_FILENAME)
              = Some ''a/dataSourceObjects/y.xml''"
    by (simp add: readFileSync_def path_join_def FORCEIGNORE_FILENAME_def)
  have sl: "split_lines ''a/dataSourceObjects/y.xml'' = [''a/dataSourceObjects/y.xml'']"
    by (simp add: LF_def CR_def)
  have h3: "(\<lambda>p. join ''/'' (path_relative [''proj''] p)) ` set ?B
        \<subseteq> existingEntries_of (split_lines ''a/dataSourceObjects/y.xml'')"
    unfolding sl by (simp add: existingEntries_of_def trim_def is_ws_def startsWith_def)
  from ignore_list_idempotent
         [of ?B "[''proj'']" "\<lparr>store = [([''proj''], Dir True)], denied = [], console = []\<rparr>"]
       ignore_list_idempotent [of ?B "[''proj'']" ?w' "''a/dataSourceObjects/y.xml''"]
       h1 h2 h3
  show ?thesis by simp
qed

section \<open>Removing paths from the store\<close>

lemma without_empty [simp]: "without {} fs = fs"
  by (simp add: without_def)

lemma without_without: "without D (without D' fs) = without (D' \<union> D) fs"
  by (induction fs) (auto simp: without_def)

lemma map_of_without: "map_of (without D fs) q = (if q \<in> D then None else map_of fs q)"
  by (induction fs) (auto simp: without_def)

lemma without_absent: "\<forall>d \<in> D. map_of fs d = None \<Longrightarrow> without D fs = fs"
proof (induction fs)
  case Nil
  then show ?case by (simp add: without_def)
next
  case (Cons a fs)
  obtain q e where a: "a = (q, e)" by (cases a)
  from Cons.prems a have q: "q \<notin> D" by auto
  with Cons.prems a have "\<forall>d \<in> D. map_of fs d = None"
    by (auto split: if_splits)
  with Cons.IH q a show ?case by (simp add: without_def)
qed

lemma children_without:
  assumes "\<forall>d \<in> D. d = [] \<or> butlast d \<noteq> dir"
  shows "children (without D fs) dir = children fs dir"
proof -
  have "filter (\<lambda>(q, e). q \<noteq> [] \<and> butlast q = dir) (without D fs)
        = filter (\<lambda>(q, e). q \<noteq> [] \<and> butlast q = dir) fs"
    unfolding without_def filter_filter
    by (rule filter_cong) (use assms in auto)
  then show ?thesis by (simp add: children_def)
qed

lemma statSync_without:
  "statSync (without D fs) q = (if q \<in> D then None else statSync fs q)"
  by (simp add: statSync_def map_of_without)

lemma readFileSync_without:
  "readFileSync (without D fs) q = (if q \<in> D then None else readFileSync fs q)"
  by (simp add: readFileSync_def map_of_without)

lemma readdirSync_without:
  assumes "dir \<notin> D" and "\<forall>d \<in> D. d = [] \<or> butlast d \<noteq> dir"
  shows "readdirSync (without D fs) dir = readdirSync fs dir"
  using assms(1)
  by (simp add: readdirSync_def map_of_without children_without [OF assms(2)]
        split: option.splits entry.splits bool.splits)

lemma unlinkSync_store:
  "unlinkSync w p = Some w' \<Longrightarrow>
   store w' = without {p} (store w) \<and> denied w' = denied w \<and> console w' = console w"
  by (auto simp: unlinkSync_def without_def split: if_splits option.splits entry.splits)

lemma unlinkSync_None:
  "unlinkSync w p = None \<longleftrightarrow>
     (p \<in> set (denied w) \<or> map_of (store w) p = None \<or> (\<exists>b. map_of (store w) p = Some (Dir b)))"
  by (auto simp: unlinkSync_def split: if_splits option.splits entry.splits)

subsection \<open>The deletion loop\<close>

lemma process_file_denied [simp]: "denied (process_file c w f) = denied w"
  by (auto simp: process_file_def Let_def dest: unlinkSync_store split: option.splits)

lemma process_file_store:
  assumes "\<forall>b. map_of (store w) f \<noteq> Some (Dir b)"
  shows "store (process_file c w f) =
     (if effectiveDeleteFiles c \<and> f \<notin> set (denied w) then without {f} (store w) else store w)"
proof (cases "effectiveDeleteFiles c")
  case False
  then show ?thesis by (simp add: process_file_def Let_def)
next
  case True
  let ?w = "console_log ''    - {filePath}'' [Path f, Strs
              ((if effectiveDeleteFiles c then [''To be DELETED''] else []) @
               (if effectiveUpdateForceignore c then [''To be added to .forceignore''] else []))] w"
  show ?thesis
  proof (cases "unlinkSync ?w f")
    case None
    then have "f \<in> set (denied w) \<or> map_of (store w) f = None"
      using assms by (simp add: unlinkSync_None)
    moreover have "map_of (store w) f = None \<Longrightarrow> without {f} (store w) = store w"
      by (rule without_absent) simp
    ultimately show ?thesis
      using None True by (auto simp: process_file_def Let_def)
  next
    case (Some w')
    then have "f \<notin> set (denied w)"
      by (auto simp: unlinkSync_def split: if_splits)
    with Some True unlinkSync_store [OF Some] show ?thesis
      by (simp add: process_file_def Let_def)
  qed
qed

lemma foldl_process_file_denied [simp]: "denied (foldl (process_file c) w fs) = denied w"
  by (induction fs arbitrary: w) simp_all

lemma foldl_process_file_store:
  assumes "\<forall>f \<in> set fs. \<forall>b. map_of (store w) f \<noteq> Some (Dir b)"
  shows "store (foldl (process_file c) w fs) =
     (if effectiveDeleteFiles c then without {f \<in> set fs. f \<notin> set (denied w)} (store w)
      else store w)"
  using assms
proof (induction fs arbitrary: w)
  case Nil
  then show ?case by simp
next
  case (Cons f fs)
  let ?w1 = "process_file c w f"
  have s1: "store ?w1 =
     (if effectiveDeleteFiles c \<and> f \<notin> set (denied w) then without {f} (store w) else store w)"
    by (rule process_file_store) (use Cons.prems in simp)
  have "\<forall>g \<in> set fs. \<forall>b. map_of (store ?w1) g \<noteq> Some (Dir b)"
    using Cons.prems by (auto simp: s1 map_of_without)
  from Cons.IH [OF this] have "store (foldl (process_file c) ?w1 fs) =
     (if effectiveDeleteFiles c then without {f \<in> set fs. f \<notin> set (denied w)} (store ?w1)
      else store ?w1)"
    by simp
  then show ?case
    by (auto simp: s1 without_without intro!: arg_cong2 [where f = without])
qed

section \<open>The folders of a scan\<close>

lemma isDirectory_iff [simp]: "isDirectory st \<longleftrightarrow> st = IsDirectory"
  by (simp add: isDirectory_def)

lemma isFile_iff [simp]: "isFile st \<longleftrightarrow> st = IsFile"
  by (simp add: isFile_def)

lemma scan_is_dir:
  "q \<in> set (findTargetFoldersRecursive fs root t) \<Longrightarrow> statSync fs q = Some IsDirectory"
proof (induction fs root t arbitrary: q rule: findTargetFoldersRecursive.induct)
  case (1 fs currentPath targetName)
  from "1.prems" obtain entries entry st where
    rd: "readdirSync fs currentPath = Some entries" and
    mem: "entry \<in> set entries" and
    st: "statSync fs (path_join currentPath entry) = Some st" and
    dir: "isDirectory st" and
    q: "(entry = targetName \<and> q = path_join currentPath entry) \<or>
        (entry \<notin> set IGNORE_DIRS \<and>
         q \<in> set (findTargetFoldersRecursive fs (path_join currentPath entry) targetName))"
    by (subst (asm) scan_mem) blast
  from q show ?case
  proof
    assume "entry = targetName \<and> q = path_join currentPath entry"
    with st dir show ?thesis by simp
  next
    assume "entry \<notin> set IGNORE_DIRS \<and>
         q \<in> set (findTargetFoldersRecursive fs (path_join currentPath entry) targetName)"
    with "1.IH" [OF rd mem st dir] show ?thesis by blast
  qed
qed

lemma distinct_concat_map:
  assumes "distinct xs"
    and "\<And>x. x \<in> set xs \<Longrightarrow> distinct (F x)"
    and "\<And>x y. x \<in> set xs \<Longrightarrow> y \<in> set xs \<Longrightarrow> x \<noteq> y \<Longrightarrow> set (F x) \<inter> set (F y) = {}"
  shows "distinct (concat (map F xs))"
  using assms
proof (induction xs)
  case Nil
  then show ?case by simp
next
  case (Cons x xs)
  have "distinct (concat (map F xs))"
    by (rule Cons.IH) (use Cons.prems in auto)
  moreover have "distinct (F x)"
    using Cons.prems(2) by simp
  moreover have "set (F x) \<inter> set (F y) = {}" if "y \<in> set xs" for y
    using Cons.prems(1) Cons.prems(3) [of x y] that by auto
  ultimately show ?case by auto
qed

lemma children_distinct [simp]: "distinct (children fs dir)"
  by (simp add: children_def)

lemma scan_distinct: "distinct (findTargetFoldersRecursive fs root t)"
proof (induction fs root t rule: findTargetFoldersRecursive.induct)
  case (1 fs currentPath targetName)
  show ?case
  proof (cases "readdirSync fs currentPath")
    case None
    then show ?thesis
      by (subst findTargetFoldersRecursive.simps) simp
  next
    case (Some entries)
    let ?F = "\<lambda>entry. case statSync fs (path_join currentPath entry) of
               None \<Rightarrow> []
             | Some st \<Rightarrow>
                 if isDirectory st then
                   (if entry = targetName then [path_join currentPath entry] else []) @
                   (if entry \<notin> set IGNORE_DIRS
                    then findTargetFoldersRecursive fs (path_join currentPath entry) targetName
                    else [])
                 else []"
    have shape: "\<exists>rest. q = currentPath @ entry # rest" if "q \<in> set (?F entry)" for q entry
    proof -
      from that consider "q = path_join currentPath entry"
        | "q \<in> set (findTargetFoldersRecursive fs (path_join currentPath entry) targetName)"
        by (auto split: option.splits if_splits)
      then show ?thesis
      proof cases
        case 1
        then show ?thesis by (simp add: path_join_def)
      next
        case 2
        from scan_shape [OF this] show ?thesis by (auto simp: path_join_def)
      qed
    qed
    have d1: "distinct (?F entry)" if "entry \<in> set entries" for entry
    proof (cases "statSync fs (path_join currentPath entry)")
      case None
      then show ?thesis by simp
    next
      case (Some st)
      show ?thesis
      proof (cases "isDirectory st \<and> entry \<notin> set IGNORE_DIRS")
        case False
        with Some show ?thesis by auto
      next
        case True
        then have dir: "isDirectory st" and ni: "entry \<notin> set IGNORE_DIRS" by simp_all
        have IH: "distinct (findTargetFoldersRecursive fs (path_join currentPath entry) targetName)"
          using "1.IH" [OF \<open>readdirSync fs currentPath = Some entries\<close> that Some dir ni] .
        have "path_join currentPath entry
              \<notin> set (findTargetFoldersRecursive fs (path_join currentPath entry) targetName)"
          using scan_shape by fastforce
        with IH Some True show ?thesis by auto
      qed
    qed
    have d2: "set (?F x) \<inter> set (?F y) = {}" if "x \<noteq> y" for x y
    proof (rule ccontr)
      assume "set (?F x) \<inter> set (?F y) \<noteq> {}"
      then obtain q where "q \<in> set (?F x)" "q \<in> set (?F y)" by blast
      with shape [of q x] shape [of q y] that show False by auto
    qed
    have "entries = children fs currentPath"
      using Some by (auto simp: readdirSync_def split: option.splits entry.splits bool.splits)
    then have "distinct entries" by simp
    then have "distinct (concat (map ?F entries))"
      by (rule distinct_concat_map) (use d1 d2 in blast)+
    then show ?thesis
      by (subst findTargetFoldersRecursive.simps) (simp only: Some option.simps)
  qed
qed

subsection \<open>The filter on a store with paths removed\<close>

lemma identify_files:
  "f \<in> set (fst (identifyFilesForAction w folder c)) \<Longrightarrow>
   (\<exists>e. f = folder @ [e]) \<and> statSync (store w) f = Some IsFile"
  by (auto simp: identify_fst actionable_def path_join_def split: option.splits)

lemma identify_snd_store [simp]:
  "store (snd (identifyFilesForAction w folder c)) = store w"
  "denied (snd (identifyFilesForAction w folder c)) = denied w"
  by (simp_all add: identifyFilesForAction_def split: option.splits)

lemma identify_store_cong:
  "store w' = store w \<Longrightarrow>
   fst (identifyFilesForAction w' folder c) = fst (identifyFilesForAction w folder c)"
  by (simp add: identify_fst split: option.splits)

lemma identify_without:
  assumes "store w' = without D (store w)"
    and "folder \<notin> D" and "\<forall>d \<in> D. d = [] \<or> butlast d \<noteq> folder"
  shows "fst (identifyFilesForAction w' folder c) = fst (identifyFilesForAction w folder c)"
proof -
  have "path_join folder e \<notin> D" for e
    using assms(3) by (auto simp: path_join_def)
  then have "actionable (without D (store w)) folder c = actionable (store w) folder c"
    by (simp add: actionable_def fun_eq_iff statSync_without readFileSync_without
          split: option.splits)
  then show ?thesis
    by (simp add: identify_fst assms(1) readdirSync_without [OF assms(2,3)]
          split: option.splits)
qed


subsection \<open>The loop over the target folders\<close>

lemma process_folder_result:
  "process_folder c (w, all) folder =
     (fst (process_folder c (w, all) folder),
      all @ fst (identifyFilesForAction w folder CRITERIA_STRING))"
  "denied (fst (process_folder c (w, all) folder)) = denied w"
  "store (fst (process_folder c (w, all) folder)) =
     (if effectiveDeleteFiles c
      then without {f \<in> set (fst (identifyFilesForAction w folder CRITERIA_STRING)).
                      f \<notin> set (denied w)} (store w)
      else store w)"
proof -
  let ?w1 = "console_log ''Identifying files in directory:'' [Path folder] w"
  let ?files = "fst (identifyFilesForAction w folder CRITERIA_STRING)"
  obtain files w2 where id: "identifyFilesForAction ?w1 folder CRITERIA_STRING = (files, w2)"
    by (cases "identifyFilesForAction ?w1 folder CRITERIA_STRING")
  have files: "files = ?files"
    using id identify_store_cong [of ?w1 w folder CRITERIA_STRING] by simp
  have w2: "store w2 = store w" "denied w2 = denied w"
    using id identify_snd_store [of ?w1 folder CRITERIA_STRING] by simp_all
  have nd: "\<forall>f \<in> set files. \<forall>b. map_of (store w) f \<noteq> Some (Dir b)"
  proof (intro ballI allI)
    fix f b
    assume "f \<in> set files"
    with files identify_files [of f w folder CRITERIA_STRING]
    have "statSync (store w) f = Some IsFile" by simp
    then show "map_of (store w) f \<noteq> Some (Dir b)"
      by (auto simp: statSync_def)
  qed
  let ?w3 = "console_log ''  Found {filesInFolder.length} file(s) in this folder that do NOT contain''
                     [Num (length files), Str CRITERIA_STRING] w2"
  have fs: "store (foldl (process_file c) ?w3 files) =
     (if effectiveDeleteFiles c then without {f \<in> set files. f \<notin> set (denied w)} (store w)
      else store w)"
    using foldl_process_file_store [of files ?w3 c] nd w2 by simp
  show "process_folder c (w, all) folder =
     (fst (process_folder c (w, all) folder), all @ ?files)"
    using id files by (simp add: process_folder_def)
  show "denied (fst (process_folder c (w, all) folder)) = denied w"
    using id w2 by (simp add: process_folder_def)
  show "store (fst (process_folder c (w, all) folder)) =
     (if effectiveDeleteFiles c
      then without {f \<in> set ?files. f \<notin> set (denied w)} (store w)
      else store w)"
  proof (cases "files = []")
    case True
    with id w2 files show ?thesis by (simp add: process_folder_def)
  next
    case False
    with id fs files show ?thesis by (simp add: process_folder_def)
  qed
qed

lemma folders_result:
  assumes "distinct T"
    and "\<forall>f \<in> set T. statSync (store w0) f = Some IsDirectory"
    and "store w = (if effectiveDeleteFiles c then without D (store w0) else store w0)"
    and "denied w = denied w0"
    and "\<forall>d \<in> D. statSync (store w0) d = Some IsFile \<and> d \<noteq> [] \<and> butlast d \<notin> set T"
  shows "snd (foldl (process_folder c) (w, all) T) =
           all @ concat (map (\<lambda>f. fst (identifyFilesForAction w0 f CRITERIA_STRING)) T)
       \<and> denied (fst (foldl (process_folder c) (w, all) T)) = denied w0
       \<and> store (fst (foldl (process_folder c) (w, all) T)) =
           (if effectiveDeleteFiles c
            then without (D \<union> {f \<in> set (concat (map (\<lambda>f. fst (identifyFilesForAction w0 f
                                  CRITERIA_STRING)) T)). f \<notin> set (denied w0)}) (store w0)
            else store w0)"
  using assms
proof (induction T arbitrary: w all D)
  case Nil
  then show ?case by simp
next
  case (Cons folder T)
  let ?id = "\<lambda>f. fst (identifyFilesForAction w0 f CRITERIA_STRING)"
  have same: "fst (identifyFilesForAction w folder CRITERIA_STRING) = ?id folder"
  proof (cases "effectiveDeleteFiles c")
    case False
    with Cons.prems(3) have "store w = store w0" by simp
    then show ?thesis
      by (rule identify_store_cong)
  next
    case True
    with Cons.prems(3) have st: "store w = without D (store w0)" by simp
    have "folder \<notin> D"
      using Cons.prems(2,5) by auto
    moreover have "\<forall>d \<in> D. d = [] \<or> butlast d \<noteq> folder"
      using Cons.prems(5) by auto
    ultimately show ?thesis
      by (rule identify_without [OF st])
  qed
  define w1 where "w1 = fst (process_folder c (w, all) folder)"
  let ?new = "{f \<in> set (?id folder). f \<notin> set (denied w0)}"
  note pf = process_folder_result [of c w all folder, folded w1_def]
  have step: "process_folder c (w, all) folder = (w1, all @ ?id folder)"
    using pf(1) same by simp
  have den: "denied w1 = denied w0"
    using pf(2) Cons.prems(4) by simp
  have sto: "store w1 =
      (if effectiveDeleteFiles c then without (D \<union> ?new) (store w0) else store w0)"
    using pf(3) same Cons.prems(3,4) by (simp add: without_without)
  have D': "\<forall>d \<in> D \<union> ?new. statSync (store w0) d = Some IsFile \<and> d \<noteq> [] \<and> butlast d \<notin> set T"
  proof
    fix d
    assume "d \<in> D \<union> ?new"
    then show "statSync (store w0) d = Some IsFile \<and> d \<noteq> [] \<and> butlast d \<notin> set T"
    proof
      assume "d \<in> D"
      with Cons.prems(5) show ?thesis by auto
    next
      assume "d \<in> ?new"
      then have "d \<in> set (?id folder)" by simp
      from identify_files [OF this] Cons.prems(1) show ?thesis by auto
    qed
  qed
  have "distinct T" "\<forall>f \<in> set T. statSync (store w0) f = Some IsDirectory"
    using Cons.prems(1,2) by simp_all
  note IH = Cons.IH [OF this sto den D', of "all @ ?id folder"]
  have seteq: "D \<union> ?new \<union> {f \<in> set (concat (map ?id T)). f \<notin> set (denied w0)}
      = D \<union> {f \<in> set (concat (map ?id (folder # T))). f \<notin> set (denied w0)}"
    by auto
  have fold: "foldl (process_folder c) (w, all) (folder # T)
      = foldl (process_folder c) (w1, all @ ?id folder) T"
    by (simp only: foldl_Cons step)
  show ?case
    unfolding fold using IH unfolding seteq by simp
qed

section \<open>The run: what it leaves in the store\<close>

lemma parse_arg_world [simp]:
  "store (snd (parse_arg (c, w) arg)) = store w"
  "denied (snd (parse_arg (c, w) arg)) = denied w"
  by (simp_all add: parse_arg_def)

lemma parse_arg_cli: "fst (parse_arg (c, w) arg) = fst (parse_arg (c, w') arg)"
  by (simp add: parse_arg_def)

lemma foldl_parse_arg_world [simp]:
  "store (snd (foldl parse_arg (c, w) args)) = store w"
  "denied (snd (foldl parse_arg (c, w) args)) = denied w"
proof (induction args arbitrary: c w)
  case Nil
  {
    case 1
    show ?case by simp
  next
    case 2
    show ?case by simp
  }
next
  case (Cons a args)
  {
    case 1
    have "store (snd (foldl parse_arg (fst (parse_arg (c, w) a), snd (parse_arg (c, w) a)) args))
          = store (snd (parse_arg (c, w) a))"
      by (rule Cons.IH(1))
    then show ?case by simp
  next
    case 2
    have "denied (snd (foldl parse_arg (fst (parse_arg (c, w) a), snd (parse_arg (c, w) a)) args))
          = denied (snd (parse_arg (c, w) a))"
      by (rule Cons.IH(2))
    then show ?case by simp
  }
qed

lemma foldl_parse_arg_cli:
  "fst (foldl parse_arg (c, w) args) = fst (foldl parse_arg (c, w') args)"
proof (induction args arbitrary: c w w')
  case Nil
  show ?case by simp
next
  case (Cons a args)
  have "foldl parse_arg (c, w) (a # args)
        = foldl parse_arg (fst (parse_arg (c, w) a), snd (parse_arg (c, w) a)) args"
    by simp
  moreover have "foldl parse_arg (c, w') (a # args)
        = foldl parse_arg (fst (parse_arg (c, w) a), snd (parse_arg (c, w') a)) args"
    using parse_arg_cli [of c w a w'] by (simp add: prod_eq_iff)
  ultimately show ?case
    using Cons.IH by metis
qed

lemma banner_world [simp]:
  "store (banner c w) = store w" "denied (banner c w) = denied w"
  by (simp_all add: banner_def Let_def split: list.splits)

lemma finish_world [simp]:
  "store (finish c w) = store w" "denied (finish c w) = denied w"
  by (simp_all add: finish_def Let_def)

lemma update_store_cong:
  assumes "store w' = store w" and "denied w' = denied w"
  shows "store (updateForceignoreFile w' root batch) = store (updateForceignoreFile w root batch)"
proof -
  let ?fi = "path_join root FORCEIGNORE_FILENAME"
  show ?thesis
  proof (cases "existsSync (store w) ?fi \<and> readFileSync (store w) ?fi = None")
    case True
    then show ?thesis
      using assms by (simp add: update_read_failure)
  next
    case False
    then obtain lines where lines: "(if existsSync (store w) ?fi
            then map_option split_lines (readFileSync (store w) ?fi)
            else Some []) = Some lines"
      by (cases "readFileSync (store w) ?fi") (auto simp: existsSync_readFile)
    have lines': "(if existsSync (store w') ?fi
            then map_option split_lines (readFileSync (store w') ?fi)
            else Some []) = Some lines"
      unfolding assms(1) by (rule lines)
    have "map_option store (appendFileSync w' ?fi d) = map_option store (appendFileSync w ?fi d)" for d
      by (rule appendFileSync_cong [OF assms])
    then show ?thesis
      unfolding update_store [OF lines] update_store [OF lines']
      by (auto simp: assms(1) split: option.splits) (metis option.simps(8,9) option.inject option.distinct(1))+
  qed
qed


lemma folders_from_start:
  assumes "store w1 = store w" and "denied w1 = denied w"
  shows "snd (foldl (process_folder c) (w1, [])
               (findTargetFoldersRecursive (store w) root TARGET_FOLDER_NAME))
           = actionable_files w root"
    and "denied (fst (foldl (process_folder c) (w1, [])
               (findTargetFoldersRecursive (store w) root TARGET_FOLDER_NAME))) = denied w"
    and "store (fst (foldl (process_folder c) (w1, [])
               (findTargetFoldersRecursive (store w) root TARGET_FOLDER_NAME)))
           = without (removed c w root) (store w)"
proof -
  let ?T = "findTargetFoldersRecursive (store w) root TARGET_FOLDER_NAME"
  have a: "distinct ?T" by (rule scan_distinct)
  have b: "\<forall>f \<in> set ?T. statSync (store w) f = Some IsDirectory"
    by (auto dest: scan_is_dir)
  have c: "store w1 = (if effectiveDeleteFiles c then without {} (store w) else store w)"
    using assms(1) by simp
  have d: "\<forall>d \<in> {}. statSync (store w) d = Some IsFile \<and> d \<noteq> [] \<and> butlast d \<notin> set ?T"
    by simp
  note r = folders_result [OF a b c assms(2) d, of "[]"]
  from r show "snd (foldl (process_folder c) (w1, []) ?T) = actionable_files w root"
    by (simp add: actionable_files_def)
  from r show "denied (fst (foldl (process_folder c) (w1, []) ?T)) = denied w"
    by simp
  from r show "store (fst (foldl (process_folder c) (w1, []) ?T)) = without (removed c w root) (store w)"
    by (simp add: actionable_files_def removed_def)
qed

lemma run_search_store:
  "\<exists>w2. store w2 = without (removed c w root) (store w) \<and> denied w2 = denied w \<and>
     store (run_search c w root) =
       (if effectiveUpdateForceignore c \<and> actionable_files w root \<noteq> []
        then store (updateForceignoreFile w2 root (actionable_files w root))
        else store w2)"
proof -
  let ?T = "findTargetFoldersRecursive (store w) root TARGET_FOLDER_NAME"
  show ?thesis
  proof (cases "?T = []")
    case True
    then have "actionable_files w root = []" "removed c w root = {}"
      by (simp_all add: actionable_files_def removed_def)
    with True have "store w = without (removed c w root) (store w) \<and> denied w = denied w \<and>
        store (run_search c w root) =
       (if effectiveUpdateForceignore c \<and> actionable_files w root \<noteq> []
        then store (updateForceignoreFile w root (actionable_files w root))
        else store w)"
      by (simp add: run_search_def Let_def)
    then show ?thesis by blast
  next
    case False
    let ?w0 = "console_log ''Starting search for {TARGET_FOLDER_NAME} directories from:''
                [Str TARGET_FOLDER_NAME, Path root] w"
    let ?w1 = "foldl (\<lambda>w folder. console_log ''  - {folder}'' [Path folder] w)
                      (console_log ''Found {targetFolders.length} director(y/ies):''
                         [Num (length ?T), Str TARGET_FOLDER_NAME] ?w0) ?T"
    define r where "r = foldl (process_folder c) (?w1, []) ?T"
    have w1: "store ?w1 = store w" "denied ?w1 = denied w"
      by simp_all
    note f = folders_from_start [OF w1, of c root, folded r_def]
    have run: "run_search c w root =
        finish c
          (if effectiveUpdateForceignore c \<and> length (snd r) > 0
           then updateForceignoreFile (fst r) root (snd r)
           else if effectiveUpdateForceignore c
           then console_log ''No files identified for action, so .forceignore was not modified.''
                  [] (fst r)
           else fst r)"
      using False by (simp add: run_search_def Let_def r_def case_prod_beta)
    have "store (fst r) = without (removed c w root) (store w) \<and> denied (fst r) = denied w \<and>
        store (run_search c w root) =
       (if effectiveUpdateForceignore c \<and> actionable_files w root \<noteq> []
        then store (updateForceignoreFile (fst r) root (actionable_files w root))
        else store (fst r))"
      using f by (simp add: run)
    then show ?thesis by blast
  qed
qed

lemma run_search_denied [simp]: "denied (run_search c w root) = denied w"
proof -
  let ?T = "findTargetFoldersRecursive (store w) root TARGET_FOLDER_NAME"
  let ?w0 = "console_log ''Starting search for {TARGET_FOLDER_NAME} directories from:''
                [Str TARGET_FOLDER_NAME, Path root] w"
  let ?w1 = "foldl (\<lambda>w folder. console_log ''  - {folder}'' [Path folder] w)
                      (console_log ''Found {targetFolders.length} director(y/ies):''
                         [Num (length ?T), Str TARGET_FOLDER_NAME] ?w0) ?T"
  have w1: "store ?w1 = store w" "denied ?w1 = denied w"
    by simp_all
  from folders_from_start(2) [OF w1, of c root] show ?thesis
    by (simp add: run_search_def Let_def case_prod_beta)
qed

lemma scan_invalid_root:
  "statSync fs root \<noteq> Some IsDirectory \<Longrightarrow> findTargetFoldersRecursive fs root t = []"
  by (subst findTargetFoldersRecursive.simps)
     (auto simp: readdirSync_def statSync_def split: option.splits entry.splits bool.splits)

lemma main_store:
  "\<exists>w2. store w2 = without (removed (parsed w cliArgs) w (searchStartPath (parsed w cliArgs) cwd))
                      (store w) \<and>
        denied w2 = denied w \<and>
     store (fst (main w cwd cliArgs)) =
       (if effectiveUpdateForceignore (parsed w cliArgs) \<and>
           actionable_files w (searchStartPath (parsed w cliArgs) cwd) \<noteq> []
        then store (updateForceignoreFile w2 (searchStartPath (parsed w cliArgs) cwd)
                      (actionable_files w (searchStartPath (parsed w cliArgs) cwd)))
        else store w2)"
proof -
  define c where "c = parsed w cliArgs"
  define root where "root = searchStartPath c cwd"
  obtain c' w1 where p: "foldl parse_arg (cli_defaults, w) cliArgs = (c', w1)"
    by (cases "foldl parse_arg (cli_defaults, w) cliArgs")
  then have c': "c' = c"
    by (simp add: c_def parsed_def)
  from p have w1: "store w1 = store w" "denied w1 = denied w"
    using foldl_parse_arg_world [of cli_defaults w cliArgs] by simp_all
  let ?wb = "banner c w1"
  have wb: "store ?wb = store w" "denied ?wb = denied w"
    using w1 by simp_all
  have af: "actionable_files ?wb root = actionable_files w root"
    using wb(1) by (simp add: actionable_files_def identify_store_cong [OF wb(1)])
  have rm: "removed c ?wb root = removed c w root"
    by (simp add: removed_def af wb w1)
  show ?thesis
  proof (cases "statSync (store w) root = Some IsDirectory")
    case True
    then have m: "main w cwd cliArgs = (run_search c ?wb root, 0)"
      using p c' wb by (simp add: main_def Let_def root_def existsSync_def)
    from run_search_store [of c ?wb root] obtain w2 where
      w2: "store w2 = without (removed c ?wb root) (store ?wb)" "denied w2 = denied ?wb"
      and r: "store (run_search c ?wb root) =
       (if effectiveUpdateForceignore c \<and> actionable_files ?wb root \<noteq> []
        then store (updateForceignoreFile w2 root (actionable_files ?wb root))
        else store w2)"
      by blast
    have "store w2 = without (removed c w root) (store w) \<and> denied w2 = denied w \<and>
       store (fst (main w cwd cliArgs)) =
       (if effectiveUpdateForceignore c \<and> actionable_files w root \<noteq> []
        then store (updateForceignoreFile w2 root (actionable_files w root))
        else store w2)"
      using w2 r unfolding af rm wb m by simp
    then show ?thesis
      unfolding c_def [symmetric] root_def [symmetric] by blast
  next
    case False
    then have "store (fst (main w cwd cliArgs)) = store w"
      using p c' wb
      by (auto simp: main_def Let_def root_def [symmetric] existsSync_def split: option.splits)
    moreover from False have "actionable_files w root = []" "removed c w root = {}"
      by (simp_all add: actionable_files_def removed_def scan_invalid_root)
    ultimately have "store w = without (removed c w root) (store w) \<and> denied w = denied w \<and>
       store (fst (main w cwd cliArgs)) =
       (if effectiveUpdateForceignore c \<and> actionable_files w root \<noteq> []
        then store (updateForceignoreFile w root (actionable_files w root))
        else store w)"
      by simp
    then show ?thesis
      unfolding c_def [symmetric] root_def [symmetric] by blast
  qed
qed

section \<open>The run: what it removes and what it leaves\<close>

lemma actionable_shape:
  assumes "f \<in> set (actionable_files w root)"
  shows "\<exists>between e. f = root @ between @ [TARGET_FOLDER_NAME, e]"
    and "statSync (store w) f = Some IsFile"
proof -
  from assms obtain folder where
    folder: "folder \<in> set (findTargetFoldersRecursive (store w) root TARGET_FOLDER_NAME)"
    and f: "f \<in> set (fst (identifyFilesForAction w folder CRITERIA_STRING))"
    by (auto simp: actionable_files_def)
  from scan_shape [OF folder] obtain between where "folder = root @ between @ [TARGET_FOLDER_NAME]"
    by blast
  moreover from identify_files [OF f] obtain e where "f = folder @ [e]"
    and st: "statSync (store w) f = Some IsFile"
    by blast
  ultimately have "f = root @ between @ [TARGET_FOLDER_NAME, e]" by simp
  then show "\<exists>between e. f = root @ between @ [TARGET_FOLDER_NAME, e]" by blast
  from st show "statSync (store w) f = Some IsFile" .
qed

lemma forceignore_not_actionable:
  "path_join root FORCEIGNORE_FILENAME \<notin> set (actionable_files w root)"
proof
  assume "path_join root FORCEIGNORE_FILENAME \<in> set (actionable_files w root)"
  from actionable_shape(1) [OF this] show False
    by (auto simp: path_join_def)
qed

lemma update_map_of:
  "q \<noteq> path_join root FORCEIGNORE_FILENAME \<Longrightarrow>
     map_of (store (updateForceignoreFile w root batch)) q = map_of (store w) q"
  "map_of (store (updateForceignoreFile w root batch)) (path_join root FORCEIGNORE_FILENAME)
     = map_of (store w) (path_join root FORCEIGNORE_FILENAME)
   \<or> (\<exists>old app.
         (readFileSync (store w) (path_join root FORCEIGNORE_FILENAME) = Some old \<or>
          map_of (store w) (path_join root FORCEIGNORE_FILENAME) = None \<and> old = []) \<and>
         map_of (store (updateForceignoreFile w root batch)) (path_join root FORCEIGNORE_FILENAME)
           = Some (File (Some (old @ app))))"
proof -
  let ?fi = "path_join root FORCEIGNORE_FILENAME"
  let ?U = "updateForceignoreFile w root batch"
  have "store ?U = store w \<or>
        (\<exists>w1 d. appendFileSync w ?fi d = Some w1 \<and> store ?U = store w1)"
  proof (cases "existsSync (store w) ?fi \<and> readFileSync (store w) ?fi = None")
    case True
    then show ?thesis by (simp add: update_read_failure)
  next
    case False
    then obtain lines where lines: "(if existsSync (store w) ?fi
            then map_option split_lines (readFileSync (store w) ?fi)
            else Some []) = Some lines"
      by (cases "readFileSync (store w) ?fi") (auto simp: existsSync_readFile)
    show ?thesis
      unfolding update_store [OF lines] by (auto split: option.splits)
  qed
  then consider "store ?U = store w"
    | w1 d where "appendFileSync w ?fi d = Some w1" "store ?U = store w1"
    by blast
  note cases = this
  show "map_of (store ?U) q = map_of (store w) q" if "q \<noteq> ?fi"
  proof (cases rule: cases)
    case 1
    then show ?thesis by simp
  next
    case (2 w1 d)
    from appendFileSync_Some(3) [OF 2(1)] that 2(2) show ?thesis by auto
  qed
  show "map_of (store ?U) ?fi = map_of (store w) ?fi
   \<or> (\<exists>old app.
         (readFileSync (store w) ?fi = Some old \<or> map_of (store w) ?fi = None \<and> old = []) \<and>
         map_of (store ?U) ?fi = Some (File (Some (old @ app))))"
  proof (cases rule: cases)
    case 1
    then show ?thesis by simp
  next
    case (2 w1 d)
    from appendFileSync_Some(3) [OF 2(1)] 2(2) show ?thesis by auto
  qed
qed

lemma main_map_of:
  assumes "c = parsed w cliArgs" and "root = searchStartPath c cwd"
    and "fi = path_join root FORCEIGNORE_FILENAME"
  shows "q \<noteq> fi \<Longrightarrow> map_of (store (fst (main w cwd cliArgs))) q =
           (if effectiveDeleteFiles c \<and> q \<in> set (actionable_files w root) \<and> q \<notin> set (denied w)
            then None else map_of (store w) q)"
    and "\<not> effectiveUpdateForceignore c \<Longrightarrow>
           map_of (store (fst (main w cwd cliArgs))) fi = map_of (store w) fi"
    and "map_of (store (fst (main w cwd cliArgs))) fi = map_of (store w) fi
         \<or> (\<exists>old app.
               (readFileSync (store w) fi = Some old \<or> map_of (store w) fi = None \<and> old = []) \<and>
               map_of (store (fst (main w cwd cliArgs))) fi = Some (File (Some (old @ app))))"
proof -
  from main_store [of w cliArgs cwd] obtain w2 where
    w2: "store w2 = without (removed c w root) (store w)" "denied w2 = denied w"
    and m: "store (fst (main w cwd cliArgs)) =
       (if effectiveUpdateForceignore c \<and> actionable_files w root \<noteq> []
        then store (updateForceignoreFile w2 root (actionable_files w root))
        else store w2)"
    unfolding assms(1,2) by blast
  have rem: "q \<in> removed c w root \<longleftrightarrow>
      effectiveDeleteFiles c \<and> q \<in> set (actionable_files w root) \<and> q \<notin> set (denied w)" for q
    by (simp add: removed_def)
  have fi: "fi \<notin> removed c w root"
    using forceignore_not_actionable [of root w] by (simp add: rem assms(3))
  have w2q: "map_of (store w2) q =
      (if effectiveDeleteFiles c \<and> q \<in> set (actionable_files w root) \<and> q \<notin> set (denied w)
       then None else map_of (store w) q)" for q
    by (simp add: w2(1) map_of_without rem)
  have w2fi: "map_of (store w2) fi = map_of (store w) fi"
    using fi by (simp add: w2(1) map_of_without)
  then have rf: "readFileSync (store w2) fi = readFileSync (store w) fi"
    by (simp add: readFileSync_def)
  show "map_of (store (fst (main w cwd cliArgs))) q =
           (if effectiveDeleteFiles c \<and> q \<in> set (actionable_files w root) \<and> q \<notin> set (denied w)
            then None else map_of (store w) q)" if "q \<noteq> fi"
    using that update_map_of(1) [of q root w2 "actionable_files w root"]
    by (simp add: m w2q assms(3))
  show "map_of (store (fst (main w cwd cliArgs))) fi = map_of (store w) fi"
    if "\<not> effectiveUpdateForceignore c"
    using that by (simp add: m w2fi)
  show "map_of (store (fst (main w cwd cliArgs))) fi = map_of (store w) fi
         \<or> (\<exists>old app.
               (readFileSync (store w) fi = Some old \<or> map_of (store w) fi = None \<and> old = []) \<and>
               map_of (store (fst (main w cwd cliArgs))) fi = Some (File (Some (old @ app))))"
  proof (cases "effectiveUpdateForceignore c \<and> actionable_files w root \<noteq> []")
    case False
    then have "store (fst (main w cwd cliArgs)) = store w2"
      using m by auto
    then show ?thesis
      by (simp add: w2fi)
  next
    case True
    then have st: "store (fst (main w cwd cliArgs))
        = store (updateForceignoreFile w2 root (actionable_files w root))"
      using m by simp
    from update_map_of(2) [of w2 root "actionable_files w root"]
    show ?thesis
      unfolding st assms(3) [symmetric] w2fi rf .
  qed
qed


subsection \<open>The example tree, evaluated\<close>

lemma example_scan:
  "findTargetFoldersRecursive example_store [''proj''] TARGET_FOLDER_NAME
     = [[''proj'', ''a'', ''dataSourceObjects'']]"
  apply (subst findTargetFoldersRecursive.simps)
  apply (simp add: example_store_def readdirSync_def children_def statSync_def path_join_def
      IGNORE_DIRS_def TARGET_FOLDER_NAME_def)
  apply (subst findTargetFoldersRecursive.simps)
  apply (simp add: readdirSync_def children_def statSync_def path_join_def
      IGNORE_DIRS_def)
  apply (subst findTargetFoldersRecursive.simps)
  apply (simp add: readdirSync_def children_def statSync_def path_join_def)
  done

lemma example_identify:
  "store w = example_store \<Longrightarrow>
   fst (identifyFilesForAction w [''proj'', ''a'', ''dataSourceObjects''] CRITERIA_STRING)
     = [[''proj'', ''a'', ''dataSourceObjects'', ''y.xml'']]"
  by (simp add: identify_fst example_store_def readdirSync_def children_def actionable_def
        statSync_def readFileSync_def path_join_def CRITERIA_STRING_def startsWith_def)

lemma example_actionable:
  "store w = example_store \<Longrightarrow>
   actionable_files w [''proj''] = [[''proj'', ''a'', ''dataSourceObjects'', ''y.xml'']]"
  by (simp add: actionable_files_def example_scan example_identify)

lemma parsed_nothing: "parsed w [] = cli_defaults"
  by (simp add: parsed_def)

lemma parsed_delete:
  "effectiveDeleteFiles (parsed w [''--delete''])"
  "\<not> effectiveUpdateForceignore (parsed w [''--delete''])"
  "remainingArgsForPath (parsed w [''--delete'']) = []"
  by (simp_all add: parsed_def parse_arg_def cli_defaults_def DEFAULT_UPDATE_FORCEIGNORE_def)


section \<open>The earlier script: what it removes\<close>

lemma process_entry_effect:
  "denied (fst (process_entry folder crit (w, n, m) e)) = denied w"
  "store (fst (process_entry folder crit (w, n, m) e)) =
     (if actionable (store w) folder crit e \<and> path_join folder e \<notin> set (denied w)
      then without {path_join folder e} (store w) else store w)"
proof -
  let ?p = "path_join folder e"
  let ?w1 = "console_log ''  File does NOT contain''
                 [Str crit, Flag DELETE_FILES, Path ?p] w"
  show "denied (fst (process_entry folder crit (w, n, m) e)) = denied w"
    by (auto simp: process_entry_def Let_def dest: unlinkSync_store
          split: option.splits)
  show "store (fst (process_entry folder crit (w, n, m) e)) =
     (if actionable (store w) folder crit e \<and> ?p \<notin> set (denied w)
      then without {?p} (store w) else store w)"
  proof (cases "actionable (store w) folder crit e")
    case False
    then show ?thesis
      by (auto simp: process_entry_def actionable_def split: option.splits)
  next
    case True
    then obtain content where st: "statSync (store w) ?p = Some IsFile"
      and rd: "readFileSync (store w) ?p = Some content"
      and ni: "\<not> string_includes content crit"
      by (auto simp: actionable_def split: option.splits)
    from st have nd: "map_of (store w) ?p \<noteq> None" "\<forall>b. map_of (store w) ?p \<noteq> Some (Dir b)"
      by (auto simp: statSync_def split: option.splits)
    show ?thesis
    proof (cases "unlinkSync ?w1 ?p")
      case None
      with nd have "?p \<in> set (denied w)"
        by (auto simp: unlinkSync_None)
      with None st rd ni True show ?thesis
        by (simp add: process_entry_def Let_def DELETE_FILES_def)
    next
      case (Some w')
      then have "?p \<notin> set (denied w)"
        by (auto simp: unlinkSync_def split: if_splits)
      with Some unlinkSync_store [OF Some] st rd ni True show ?thesis
        by (simp add: process_entry_def Let_def DELETE_FILES_def)
    qed
  qed
qed

lemma entries_loop:
  assumes "distinct es"
    and "store w = without D (store w0)" and "denied w = denied w0"
    and "\<forall>d \<in> D. \<exists>e'. d = path_join folder e' \<and> e' \<notin> set es"
  shows "denied (fst (foldl (process_entry folder crit) (w, n, m) es)) = denied w0
       \<and> store (fst (foldl (process_entry folder crit) (w, n, m) es)) =
           without (D \<union> {f \<in> set (map (path_join folder)
                                    (filter (actionable (store w0) folder crit) es)).
                          f \<notin> set (denied w0)}) (store w0)"
  using assms
proof (induction es arbitrary: w n m D)
  case Nil
  then show ?case by simp
next
  case (Cons e es)
  define s where "s = process_entry folder crit (w, n, m) e"
  let ?p = "path_join folder e"
  have pD: "?p \<notin> D"
    using Cons.prems(4) by (auto simp: path_join_inj)
  have act: "actionable (store w) folder crit e = actionable (store w0) folder crit e"
    using pD by (simp add: actionable_def Cons.prems(2) statSync_without readFileSync_without
          split: option.splits)
  let ?new = "(if actionable (store w0) folder crit e \<and> ?p \<notin> set (denied w0) then {?p} else {})"
  note pe = process_entry_effect [of folder crit w n m e, folded s_def]
  have den: "denied (fst s) = denied w0"
    using pe(1) Cons.prems(3) by simp
  have sto: "store (fst s) = without (D \<union> ?new) (store w0)"
    using pe(2) act Cons.prems(2,3) by (simp add: without_without)
  have D': "\<forall>d \<in> D \<union> ?new. \<exists>e'. d = path_join folder e' \<and> e' \<notin> set es"
    using Cons.prems(1,4) by auto
  have "distinct es"
    using Cons.prems(1) by simp
  note IH = Cons.IH [OF this sto den D', of "fst (snd s)" "snd (snd s)"]
  have fold: "foldl (process_entry folder crit) (w, n, m) (e # es)
      = foldl (process_entry folder crit) (fst s, fst (snd s), snd (snd s)) es"
    by (simp add: s_def)
  have seteq: "D \<union> ?new \<union> {f \<in> set (map (path_join folder)
                                    (filter (actionable (store w0) folder crit) es)).
                          f \<notin> set (denied w0)}
      = D \<union> {f \<in> set (map (path_join folder)
                                    (filter (actionable (store w0) folder crit) (e # es))).
                          f \<notin> set (denied w0)}"
    by auto
  show ?case
    unfolding fold using IH unfolding seteq by simp
qed

lemma earlier_folder_effect:
  "denied (processFilesLookigForAbsence w folder crit) = denied w"
  "store (processFilesLookigForAbsence w folder crit) =
     without {f \<in> set (fst (identifyFilesForAction w folder crit)). f \<notin> set (denied w)} (store w)"
proof -
  show "denied (processFilesLookigForAbsence w folder crit) = denied w"
  proof (cases "readdirSync (store w) folder")
    case None
    then show ?thesis by (simp add: processFilesLookigForAbsence_def)
  next
    case (Some es)
    then have "es = children (store w) folder"
      by (auto simp: readdirSync_def split: option.splits entry.splits bool.splits)
    then have d: "distinct es" by simp
    from entries_loop [OF d, of w "{}" w folder crit 0 0] Some show ?thesis
      by (simp add: processFilesLookigForAbsence_def case_prod_beta)
  qed
  show "store (processFilesLookigForAbsence w folder crit) =
     without {f \<in> set (fst (identifyFilesForAction w folder crit)). f \<notin> set (denied w)} (store w)"
  proof (cases "readdirSync (store w) folder")
    case None
    then show ?thesis by (simp add: processFilesLookigForAbsence_def identify_fst)
  next
    case (Some es)
    then have "es = children (store w) folder"
      by (auto simp: readdirSync_def split: option.splits entry.splits bool.splits)
    then have d: "distinct es" by simp
    from entries_loop [OF d, of w "{}" w folder crit 0 0] Some show ?thesis
      by (simp add: processFilesLookigForAbsence_def case_prod_beta identify_fst)
  qed
qed


lemma earlier_folders_result:
  assumes "distinct T"
    and "\<forall>f \<in> set T. statSync (store w0) f = Some IsDirectory"
    and "store w = without D (store w0)"
    and "denied w = denied w0"
    and "\<forall>d \<in> D. statSync (store w0) d = Some IsFile \<and> d \<noteq> [] \<and> butlast d \<notin> set T"
  shows "denied (foldl (\<lambda>w folderPath.
                   processFilesLookigForAbsence
                     (console_log ''Processing directory:'' [Path folderPath] w)
                     folderPath CRITERIA_STRING) w T) = denied w0
       \<and> store (foldl (\<lambda>w folderPath.
                   processFilesLookigForAbsence
                     (console_log ''Processing directory:'' [Path folderPath] w)
                     folderPath CRITERIA_STRING) w T) =
           without (D \<union> {f \<in> set (concat (map (\<lambda>f. fst (identifyFilesForAction w0 f
                                  CRITERIA_STRING)) T)). f \<notin> set (denied w0)}) (store w0)"
  using assms
proof (induction T arbitrary: w D)
  case Nil
  then show ?case by simp
next
  case (Cons folder T)
  let ?id = "\<lambda>f. fst (identifyFilesForAction w0 f CRITERIA_STRING)"
  let ?step = "\<lambda>w folderPath.
                   processFilesLookigForAbsence
                     (console_log ''Processing directory:'' [Path folderPath] w)
                     folderPath CRITERIA_STRING"
  let ?wl = "console_log ''Processing directory:'' [Path folder] w"
  have st: "store ?wl = without D (store w0)"
    using Cons.prems(3) by simp
  have "folder \<notin> D"
    using Cons.prems(2,5) by auto
  moreover have "\<forall>d \<in> D. d = [] \<or> butlast d \<noteq> folder"
    using Cons.prems(5) by auto
  ultimately have same: "fst (identifyFilesForAction ?wl folder CRITERIA_STRING) = ?id folder"
    by (rule identify_without [OF st])
  define w1 where "w1 = ?step w folder"
  let ?new = "{f \<in> set (?id folder). f \<notin> set (denied w0)}"
  have den: "denied w1 = denied w0"
    using earlier_folder_effect(1) [of ?wl folder CRITERIA_STRING] Cons.prems(4)
    by (simp add: w1_def)
  have sto: "store w1 = without (D \<union> ?new) (store w0)"
    using earlier_folder_effect(2) [of ?wl folder CRITERIA_STRING] same Cons.prems(3,4)
    by (simp add: w1_def without_without)
  have D': "\<forall>d \<in> D \<union> ?new. statSync (store w0) d = Some IsFile \<and> d \<noteq> [] \<and> butlast d \<notin> set T"
  proof
    fix d
    assume "d \<in> D \<union> ?new"
    then show "statSync (store w0) d = Some IsFile \<and> d \<noteq> [] \<and> butlast d \<notin> set T"
    proof
      assume "d \<in> D"
      with Cons.prems(5) show ?thesis by auto
    next
      assume "d \<in> ?new"
      then have "d \<in> set (?id folder)" by simp
      from identify_files [OF this] Cons.prems(1) show ?thesis by auto
    qed
  qed
  have "distinct T" "\<forall>f \<in> set T. statSync (store w0) f = Some IsDirectory"
    using Cons.prems(1,2) by simp_all
  note IH = Cons.IH [OF this sto den D']
  have seteq: "D \<union> ?new \<union> {f \<in> set (concat (map ?id T)). f \<notin> set (denied w0)}
      = D \<union> {f \<in> set (concat (map ?id (folder # T))). f \<notin> set (denied w0)}"
    by auto
  have fold: "foldl ?step w (folder # T) = foldl ?step w1 T"
    by (simp add: w1_def)
  show ?case
    unfolding fold using IH unfolding seteq by simp
qed

lemma main_earlier_store:
  "store (fst (main_earlier w cwd startArg)) =
     without {f \<in> set (actionable_files w
                          (case startArg of
                             None \<Rightarrow> cwd
                           | Some a \<Rightarrow> if a \<noteq> [] then path_resolve cwd a else cwd)).
              f \<notin> set (denied w)} (store w)"
proof -
  define root where "root = (case startArg of
                             None \<Rightarrow> cwd
                           | Some a \<Rightarrow> if a \<noteq> [] then path_resolve cwd a else cwd)"
  let ?T = "findTargetFoldersRecursive (store w) root TARGET_FOLDER_NAME"
  show ?thesis
  proof (cases "statSync (store w) root = Some IsDirectory")
    case False
    then have "actionable_files w root = []"
      by (simp add: actionable_files_def scan_invalid_root)
    moreover from False have "store (fst (main_earlier w cwd startArg)) = store w"
      by (auto simp: main_earlier_def Let_def root_def [symmetric] existsSync_def
            split: option.splits)
    ultimately show ?thesis
      unfolding root_def [symmetric] by simp
  next
    case True
    show ?thesis
    proof (cases "?T = []")
      case Nil: True
      then have "actionable_files w root = []"
        by (simp add: actionable_files_def)
      moreover from True Nil have "store (fst (main_earlier w cwd startArg)) = store w"
        by (simp add: main_earlier_def Let_def root_def [symmetric] existsSync_def)
      ultimately show ?thesis
        unfolding root_def [symmetric] by simp
    next
      case False
      let ?w0 = "console_log ''Criteria: Files NOT containing''
                   [Str CRITERIA_STRING, Str TARGET_FOLDER_NAME]
                   (console_warn ''WARNING: DELETE_FILES is set to true. Files will be permanently deleted.'' []
                     (console_log ''-----------------------------'' []
                       (console_log ''Node.js File Cleanup Utility'' [] w)))"
      let ?w1 = "foldl (\<lambda>w folder. console_log ''  - {folder}'' [Path folder] w)
                   (console_log ''Found {targetFolders.length} director(y/ies):''
                      [Num (length ?T), Str TARGET_FOLDER_NAME]
                      (console_log ''Starting search for {TARGET_FOLDER_NAME} directories from:''
                         [Str TARGET_FOLDER_NAME, Path root] ?w0))
                   ?T"
      have a: "distinct ?T" by (rule scan_distinct)
      have b: "\<forall>f \<in> set ?T. statSync (store w) f = Some IsDirectory"
        by (auto dest: scan_is_dir)
      have c: "store ?w1 = without {} (store w)" and d: "denied ?w1 = denied w"
        by simp_all
      have e: "\<forall>d \<in> {}. statSync (store w) d = Some IsFile \<and> d \<noteq> [] \<and> butlast d \<notin> set ?T"
        by simp
      note r = earlier_folders_result [OF a b c d e]
      have "store (fst (main_earlier w cwd startArg)) =
          store (foldl (\<lambda>w folderPath.
                   processFilesLookigForAbsence
                     (console_log ''Processing directory:'' [Path folderPath] w)
                     folderPath CRITERIA_STRING) ?w1 ?T)"
        using True False
        by (simp add: main_earlier_def Let_def root_def [symmetric] existsSync_def DELETE_FILES_def)
      with r show ?thesis
        unfolding root_def [symmetric] by (simp add: actionable_files_def)
    qed
  qed
qed

section \<open>The console of a run\<close>

lemma console_grows:
  "set (console w) \<subseteq> set (console (console_log t a w))"
  "set (console w) \<subseteq> set (console (console_warn t a w))"
  "set (console w) \<subseteq> set (console (console_error t a w))"
  by (auto simp: console_log_def console_warn_def console_error_def)

lemma finish_console: "set (console w) \<subseteq> set (console (finish c w))"
  by (auto simp: finish_def Let_def console_log_def)

lemma foldl_console_grows:
  "set (console w) \<subseteq> set (console (foldl (\<lambda>w x. console_log (t x) (a x) w) w xs))"
proof (induction xs arbitrary: w)
  case Nil
  then show ?case by simp
next
  case (Cons x xs)
  from Cons [of "console_log (t x) (a x) w"] console_grows(1) [of w "t x" "a x"]
  show ?case by auto
qed

lemma process_file_console:
  "set (console w) \<subseteq> set (console (process_file c w f))"
  by (auto simp: process_file_def Let_def console_log_def console_error_def
        dest!: unlinkSync_store split: option.splits)

lemma process_file_refused:
  "effectiveDeleteFiles c \<Longrightarrow> f \<in> set (denied w) \<Longrightarrow>
   (ERROR, ''      ERROR DELETING:'', [Path f]) \<in> set (console (process_file c w f))"
  by (simp add: process_file_def Let_def unlinkSync_def console_error_def)

lemma foldl_process_file_console:
  "set (console w) \<subseteq> set (console (foldl (process_file c) w fs))"
proof (induction fs arbitrary: w)
  case Nil
  then show ?case by simp
next
  case (Cons f fs)
  from Cons [of "process_file c w f"] process_file_console [of w c f]
  show ?case by auto
qed

lemma foldl_process_file_refused:
  "effectiveDeleteFiles c \<Longrightarrow> f \<in> set fs \<Longrightarrow> f \<in> set (denied w) \<Longrightarrow>
   (ERROR, ''      ERROR DELETING:'', [Path f]) \<in> set (console (foldl (process_file c) w fs))"
proof (induction fs arbitrary: w)
  case Nil
  then show ?case by simp
next
  case (Cons g fs)
  show ?case
  proof (cases "f = g")
    case True
    with Cons.prems process_file_refused [of c f w]
      foldl_process_file_console [of "process_file c w f" c fs]
    show ?thesis by auto
  next
    case False
    with Cons.prems Cons.IH [of "process_file c w g"] show ?thesis by simp
  qed
qed

lemma identify_console:
  "set (console w) \<subseteq> set (console (snd (identifyFilesForAction w folder c)))"
  by (auto simp: identifyFilesForAction_def console_error_def split: option.splits)

lemma process_folder_console:
  "set (console w) \<subseteq> set (console (fst (process_folder c (w, all) folder)))"
  "effectiveDeleteFiles c \<Longrightarrow>
   f \<in> set (fst (identifyFilesForAction w folder CRITERIA_STRING)) \<Longrightarrow> f \<in> set (denied w) \<Longrightarrow>
   (ERROR, ''      ERROR DELETING:'', [Path f])
     \<in> set (console (fst (process_folder c (w, all) folder)))"
proof -
  let ?w1 = "console_log ''Identifying files in directory:'' [Path folder] w"
  let ?files = "fst (identifyFilesForAction w folder CRITERIA_STRING)"
  obtain files w2 where id: "identifyFilesForAction ?w1 folder CRITERIA_STRING = (files, w2)"
    by (cases "identifyFilesForAction ?w1 folder CRITERIA_STRING")
  have files: "files = ?files"
    using id identify_store_cong [of ?w1 w folder CRITERIA_STRING] by simp
  have w2: "denied w2 = denied w"
    using id identify_snd_store [of ?w1 folder CRITERIA_STRING] by simp
  have c2: "set (console w) \<subseteq> set (console w2)"
    using id identify_console [of ?w1 folder CRITERIA_STRING] console_grows(1) [of w] by auto
  let ?w3 = "console_log ''  Found {filesInFolder.length} file(s) in this folder that do NOT contain''
                     [Num (length files), Str CRITERIA_STRING] w2"
  have c3: "set (console w) \<subseteq> set (console ?w3)"
    using c2 console_grows(1) [of w2] by blast
  show "set (console w) \<subseteq> set (console (fst (process_folder c (w, all) folder)))"
  proof (cases "files = []")
    case True
    with id c2 console_grows(1) [of w2] show ?thesis
      by (auto simp: process_folder_def)
  next
    case False
    with id c3 foldl_process_file_console [of ?w3 c files] show ?thesis
      by (auto simp: process_folder_def)
  qed
  show "(ERROR, ''      ERROR DELETING:'', [Path f])
     \<in> set (console (fst (process_folder c (w, all) folder)))"
    if "effectiveDeleteFiles c" and "f \<in> set ?files" and "f \<in> set (denied w)"
  proof -
    from that(2) files have ne: "files \<noteq> []" and m: "f \<in> set files"
      by auto
    have "f \<in> set (denied ?w3)"
      using that(3) w2 by simp
    from foldl_process_file_refused [OF that(1) m this] id ne show ?thesis
      by (simp add: process_folder_def)
  qed
qed

lemma foldl_process_folder_console:
  "set (console w) \<subseteq> set (console (fst (foldl (process_folder c) (w, all) T)))"
proof (induction T arbitrary: w all)
  case Nil
  then show ?case by simp
next
  case (Cons folder T)
  obtain w1 all1 where s: "process_folder c (w, all) folder = (w1, all1)"
    by (cases "process_folder c (w, all) folder")
  from process_folder_console(1) [of w c all folder] s
  have "set (console w) \<subseteq> set (console w1)" by simp
  with Cons [of w1 all1] s show ?case by auto
qed

lemma folders_refused:
  assumes "distinct T"
    and "\<forall>f \<in> set T. statSync (store w0) f = Some IsDirectory"
    and "store w = without D (store w0)"
    and "denied w = denied w0"
    and "\<forall>d \<in> D. statSync (store w0) d = Some IsFile \<and> d \<noteq> [] \<and> butlast d \<notin> set T"
    and "effectiveDeleteFiles c"
    and "f \<in> set (concat (map (\<lambda>f. fst (identifyFilesForAction w0 f CRITERIA_STRING)) T))"
    and "f \<in> set (denied w0)"
  shows "(ERROR, ''      ERROR DELETING:'', [Path f])
           \<in> set (console (fst (foldl (process_folder c) (w, all) T)))"
  using assms(1-5,7)
proof (induction T arbitrary: w all D)
  case Nil
  then show ?case by simp
next
  case (Cons folder T)
  let ?id = "\<lambda>f. fst (identifyFilesForAction w0 f CRITERIA_STRING)"
  have "folder \<notin> D"
    using Cons.prems(2,5) by auto
  moreover have "\<forall>d \<in> D. d = [] \<or> butlast d \<noteq> folder"
    using Cons.prems(5) by auto
  ultimately have same: "fst (identifyFilesForAction w folder CRITERIA_STRING) = ?id folder"
    by (rule identify_without [OF Cons.prems(3)])
  define w1 where "w1 = fst (process_folder c (w, all) folder)"
  let ?new = "{f \<in> set (?id folder). f \<notin> set (denied w0)}"
  note pf = process_folder_result [of c w all folder, folded w1_def]
  have step: "process_folder c (w, all) folder = (w1, all @ ?id folder)"
    using pf(1) same by simp
  have fold: "foldl (process_folder c) (w, all) (folder # T)
      = foldl (process_folder c) (w1, all @ ?id folder) T"
    by (simp only: foldl_Cons step)
  show ?case
  proof (cases "f \<in> set (?id folder)")
    case True
    with process_folder_console(2) [of c f w folder all] assms(6,8) same Cons.prems(4)
    have "(ERROR, ''      ERROR DELETING:'', [Path f]) \<in> set (console w1)"
      by (simp add: w1_def)
    with foldl_process_folder_console [of w1 c "all @ ?id folder" T] show ?thesis
      unfolding fold by blast
  next
    case False
    with Cons.prems(6) have f: "f \<in> set (concat (map ?id T))" by auto
    have den: "denied w1 = denied w0"
      using pf(2) Cons.prems(4) by simp
    have sto: "store w1 = without (D \<union> ?new) (store w0)"
      using pf(3) same Cons.prems(3,4) assms(6) by (simp add: without_without)
    have D': "\<forall>d \<in> D \<union> ?new. statSync (store w0) d = Some IsFile \<and> d \<noteq> [] \<and> butlast d \<notin> set T"
    proof
      fix d
      assume "d \<in> D \<union> ?new"
      then show "statSync (store w0) d = Some IsFile \<and> d \<noteq> [] \<and> butlast d \<notin> set T"
      proof
        assume "d \<in> D"
        with Cons.prems(5) show ?thesis by auto
      next
        assume "d \<in> ?new"
        then have "d \<in> set (?id folder)" by simp
        from identify_files [OF this] Cons.prems(1) show ?thesis by auto
      qed
    qed
    have "distinct T" "\<forall>f \<in> set T. statSync (store w0) f = Some IsDirectory"
      using Cons.prems(1,2) by simp_all
    from Cons.IH [OF this sto den D' f, of "all @ ?id folder"] show ?thesis
      unfolding fold .
  qed
qed

lemma update_console:
  "set (console w) \<subseteq> set (console (updateForceignoreFile w root batch))"
proof -
  have "set (console w) \<subseteq> set (console (foldl (\<lambda>w p. console_log ''  Added: {p}'' [Str p] w)
           (console_log t a w') news))" if "appendFileSync w p d = Some w'" for p d w' t a news
    using foldl_console_grows [of "console_log t a w'" "\<lambda>p. ''  Added: {p}''" "\<lambda>p. [Str p]" news]
      console_grows(1) [of w' t a] appendFileSync_Some(2) [OF that] by auto
  then show ?thesis
    using console_grows [of w]
    by (auto simp: updateForceignoreFile_def Let_def split: option.splits)
qed

lemma run_search_refused:
  assumes "effectiveDeleteFiles c" and "f \<in> set (actionable_files w root)"
    and "f \<in> set (denied w)"
  shows "(ERROR, ''      ERROR DELETING:'', [Path f]) \<in> set (console (run_search c w root))"
proof -
  let ?T = "findTargetFoldersRecursive (store w) root TARGET_FOLDER_NAME"
  from assms(2) have T: "?T \<noteq> []"
    by (auto simp: actionable_files_def)
  let ?w0 = "console_log ''Starting search for {TARGET_FOLDER_NAME} directories from:''
                [Str TARGET_FOLDER_NAME, Path root] w"
  let ?w1 = "foldl (\<lambda>w folder. console_log ''  - {folder}'' [Path folder] w)
                      (console_log ''Found {targetFolders.length} director(y/ies):''
                         [Num (length ?T), Str TARGET_FOLDER_NAME] ?w0) ?T"
  define r where "r = foldl (process_folder c) (?w1, []) ?T"
  have a: "distinct ?T" by (rule scan_distinct)
  have b: "\<forall>f \<in> set ?T. statSync (store w) f = Some IsDirectory"
    by (auto dest: scan_is_dir)
  have s: "store ?w1 = without {} (store w)" and d: "denied ?w1 = denied w"
    by simp_all
  have e: "\<forall>d \<in> {}. statSync (store w) d = Some IsFile \<and> d \<noteq> [] \<and> butlast d \<notin> set ?T"
    by simp
  have m: "(ERROR, ''      ERROR DELETING:'', [Path f]) \<in> set (console (fst r))"
    unfolding r_def
    by (rule folders_refused [OF a b s d e assms(1) _ assms(3)])
       (use assms(2) in \<open>simp add: actionable_files_def\<close>)
  have run: "run_search c w root =
        finish c
          (if effectiveUpdateForceignore c \<and> length (snd r) > 0
           then updateForceignoreFile (fst r) root (snd r)
           else if effectiveUpdateForceignore c
           then console_log ''No files identified for action, so .forceignore was not modified.''
                  [] (fst r)
           else fst r)"
    using T by (simp add: run_search_def Let_def r_def case_prod_beta)
  define w2 where "w2 =
          (if effectiveUpdateForceignore c \<and> length (snd r) > 0
           then updateForceignoreFile (fst r) root (snd r)
           else if effectiveUpdateForceignore c
           then console_log ''No files identified for action, so .forceignore was not modified.''
                  [] (fst r)
           else fst r)"
  have "set (console (fst r)) \<subseteq> set (console w2)"
    unfolding w2_def
    using update_console [of "fst r" root "snd r"] console_grows(1) [of "fst r"]
    by simp
  with m finish_console [of w2 c] show ?thesis
    unfolding run w2_def [symmetric] by blast
qed

lemma main_refused:
  assumes "effectiveDeleteFiles (parsed w cliArgs)"
    and "f \<in> set (actionable_files w (searchStartPath (parsed w cliArgs) cwd))"
    and "f \<in> set (denied w)"
  shows "(ERROR, ''      ERROR DELETING:'', [Path f]) \<in> set (console (fst (main w cwd cliArgs)))"
proof -
  define c where "c = parsed w cliArgs"
  define root where "root = searchStartPath c cwd"
  obtain c' w1 where p: "foldl parse_arg (cli_defaults, w) cliArgs = (c', w1)"
    by (cases "foldl parse_arg (cli_defaults, w) cliArgs")
  then have c': "c' = c"
    by (simp add: c_def parsed_def)
  from p have w1: "store w1 = store w" "denied w1 = denied w"
    using foldl_parse_arg_world [of cli_defaults w cliArgs] by simp_all
  let ?wb = "banner c w1"
  have wb: "store ?wb = store w" "denied ?wb = denied w"
    using w1 by simp_all
  have af: "actionable_files ?wb root = actionable_files w root"
    using wb(1) by (simp add: actionable_files_def identify_store_cong [OF wb(1)])
  have "statSync (store w) root = Some IsDirectory"
  proof (rule ccontr)
    assume "statSync (store w) root \<noteq> Some IsDirectory"
    then have "actionable_files w root = []"
      by (simp add: actionable_files_def scan_invalid_root)
    with assms(2) show False
      by (simp add: c_def root_def)
  qed
  then have m: "main w cwd cliArgs = (run_search c ?wb root, 0)"
    using p c' wb by (simp add: main_def Let_def root_def existsSync_def)
  have "(ERROR, ''      ERROR DELETING:'', [Path f]) \<in> set (console (run_search c ?wb root))"
    by (rule run_search_refused)
       (use assms af wb in \<open>simp_all add: c_def root_def\<close>)
  then show ?thesis
    by (simp add: m)
qed


subsection \<open>The earlier script\<close>

lemma process_entry_console:
  "set (console w) \<subseteq> set (console (fst (process_entry folder crit (w, n, m) e)))"
  "actionable (store w) folder crit e \<Longrightarrow> path_join folder e \<in> set (denied w) \<Longrightarrow>
   (ERROR, ''    ERROR DELETING:'', [Path (path_join folder e)])
     \<in> set (console (fst (process_entry folder crit (w, n, m) e)))"
proof -
  show "set (console w) \<subseteq> set (console (fst (process_entry folder crit (w, n, m) e)))"
    by (auto simp: process_entry_def Let_def console_log_def console_error_def
          dest!: unlinkSync_store split: option.splits)
  show "(ERROR, ''    ERROR DELETING:'', [Path (path_join folder e)])
     \<in> set (console (fst (process_entry folder crit (w, n, m) e)))"
    if "actionable (store w) folder crit e" and "path_join folder e \<in> set (denied w)"
    using that
    by (auto simp: process_entry_def Let_def actionable_def unlinkSync_def DELETE_FILES_def
          console_error_def split: option.splits)
qed

lemma entries_loop_console:
  "set (console w) \<subseteq> set (console (fst (foldl (process_entry folder crit) (w, n, m) es)))"
proof (induction es arbitrary: w n m)
  case Nil
  then show ?case by simp
next
  case (Cons e es)
  obtain w1 n1 m1 where s: "process_entry folder crit (w, n, m) e = (w1, n1, m1)"
    by (cases "process_entry folder crit (w, n, m) e")
  from process_entry_console(1) [of w folder crit n m e] s
  have "set (console w) \<subseteq> set (console w1)" by simp
  with Cons [of w1 n1 m1] s show ?case by auto
qed

lemma entries_loop_refused:
  assumes "distinct es"
    and "store w = without D (store w0)" and "denied w = denied w0"
    and "\<forall>d \<in> D. \<exists>e'. d = path_join folder e' \<and> e' \<notin> set es"
    and "e \<in> set es" and "actionable (store w0) folder crit e"
    and "path_join folder e \<in> set (denied w0)"
  shows "(ERROR, ''    ERROR DELETING:'', [Path (path_join folder e)])
           \<in> set (console (fst (foldl (process_entry folder crit) (w, n, m) es)))"
  using assms(1-5)
proof (induction es arbitrary: w n m D)
  case Nil
  then show ?case by simp
next
  case (Cons g es)
  define s where "s = process_entry folder crit (w, n, m) g"
  let ?p = "path_join folder g"
  have pD: "?p \<notin> D"
    using Cons.prems(4) by (auto simp: path_join_inj)
  have act: "actionable (store w) folder crit g = actionable (store w0) folder crit g"
    using pD by (simp add: actionable_def Cons.prems(2) statSync_without readFileSync_without
          split: option.splits)
  have fold: "foldl (process_entry folder crit) (w, n, m) (g # es)
      = foldl (process_entry folder crit) (fst s, fst (snd s), snd (snd s)) es"
    by (simp add: s_def)
  show ?case
  proof (cases "e = g")
    case True
    with process_entry_console(2) [of w folder crit g n m] act assms(6,7) Cons.prems(3)
    have "(ERROR, ''    ERROR DELETING:'', [Path (path_join folder e)]) \<in> set (console (fst s))"
      by (simp add: s_def)
    with entries_loop_console [of "fst s" folder crit "fst (snd s)" "snd (snd s)" es]
    show ?thesis
      unfolding fold by blast
  next
    case False
    with Cons.prems(5) have e: "e \<in> set es" by simp
    let ?new = "(if actionable (store w0) folder crit g \<and> ?p \<notin> set (denied w0) then {?p} else {})"
    note pe = process_entry_effect [of folder crit w n m g, folded s_def]
    have den: "denied (fst s) = denied w0"
      using pe(1) Cons.prems(3) by simp
    have sto: "store (fst s) = without (D \<union> ?new) (store w0)"
      using pe(2) act Cons.prems(2,3) by (simp add: without_without)
    have D': "\<forall>d \<in> D \<union> ?new. \<exists>e'. d = path_join folder e' \<and> e' \<notin> set es"
      using Cons.prems(1,4) by auto
    have "distinct es"
      using Cons.prems(1) by simp
    from Cons.IH [OF this sto den D' e, of "fst (snd s)" "snd (snd s)"] show ?thesis
      unfolding fold .
  qed
qed

lemma earlier_folder_console:
  "set (console w) \<subseteq> set (console (processFilesLookigForAbsence w folder crit))"
  "f \<in> set (fst (identifyFilesForAction w folder crit)) \<Longrightarrow> f \<in> set (denied w) \<Longrightarrow>
   (ERROR, ''    ERROR DELETING:'', [Path f])
     \<in> set (console (processFilesLookigForAbsence w folder crit))"
proof -
  have fin: "set (console (fst r)) \<subseteq>
        set (console (case r of (w, filesProcessed, filesMarkedForDeletion) \<Rightarrow>
               if filesProcessed = 0
               then console_log ''  No files found directly in this directory.'' [] w
               else if filesMarkedForDeletion = 0
               then console_log ''  All files checked contained the criteria string or no files met deletion criteria.'' [] w
               else w))" for r :: "world \<times> nat \<times> nat"
    using console_grows(1) [of "fst r"] by (cases r) auto
  show "set (console w) \<subseteq> set (console (processFilesLookigForAbsence w folder crit))"
  proof (cases "readdirSync (store w) folder")
    case None
    then show ?thesis
      using console_grows(3) [of w] by (simp add: processFilesLookigForAbsence_def)
  next
    case (Some es)
    with entries_loop_console [of w folder crit 0 0 es]
      fin [of "foldl (process_entry folder crit) (w, 0, 0) es"]
    show ?thesis
      by (simp add: processFilesLookigForAbsence_def)
  qed
  show "(ERROR, ''    ERROR DELETING:'', [Path f])
     \<in> set (console (processFilesLookigForAbsence w folder crit))"
    if f: "f \<in> set (fst (identifyFilesForAction w folder crit))" and d: "f \<in> set (denied w)"
  proof (cases "readdirSync (store w) folder")
    case None
    with f show ?thesis by (simp add: identify_fst)
  next
    case (Some es)
    then have "es = children (store w) folder"
      by (auto simp: readdirSync_def split: option.splits entry.splits bool.splits)
    then have dist: "distinct es" by simp
    from f Some obtain e where e: "e \<in> set es" "actionable (store w) folder crit e"
      and fe: "f = path_join folder e"
      by (auto simp: identify_fst)
    have "(ERROR, ''    ERROR DELETING:'', [Path (path_join folder e)])
           \<in> set (console (fst (foldl (process_entry folder crit) (w, 0, 0) es)))"
      by (rule entries_loop_refused [OF dist, of w "{}" w])
         (use e d fe in simp_all)
    with fin [of "foldl (process_entry folder crit) (w, 0, 0) es"] Some fe
    show ?thesis
      by (simp add: processFilesLookigForAbsence_def) blast
  qed
qed

lemma earlier_folders_console:
  "set (console w) \<subseteq> set (console (foldl (\<lambda>w folderPath.
                   processFilesLookigForAbsence
                     (console_log ''Processing directory:'' [Path folderPath] w)
                     folderPath CRITERIA_STRING) w T))"
proof (induction T arbitrary: w)
  case Nil
  then show ?case by simp
next
  case (Cons folder T)
  let ?w1 = "processFilesLookigForAbsence
               (console_log ''Processing directory:'' [Path folder] w) folder CRITERIA_STRING"
  have "set (console w) \<subseteq> set (console ?w1)"
    using earlier_folder_console(1)
            [of "console_log ''Processing directory:'' [Path folder] w" folder CRITERIA_STRING]
      console_grows(1) [of w] by blast
  with Cons [of ?w1] show ?case by auto
qed

lemma earlier_folders_refused:
  assumes "distinct T"
    and "\<forall>f \<in> set T. statSync (store w0) f = Some IsDirectory"
    and "store w = without D (store w0)"
    and "denied w = denied w0"
    and "\<forall>d \<in> D. statSync (store w0) d = Some IsFile \<and> d \<noteq> [] \<and> butlast d \<notin> set T"
    and "f \<in> set (concat (map (\<lambda>f. fst (identifyFilesForAction w0 f CRITERIA_STRING)) T))"
    and "f \<in> set (denied w0)"
  shows "(ERROR, ''    ERROR DELETING:'', [Path f])
           \<in> set (console (foldl (\<lambda>w folderPath.
                   processFilesLookigForAbsence
                     (console_log ''Processing directory:'' [Path folderPath] w)
                     folderPath CRITERIA_STRING) w T))"
  using assms(1-6)
proof (induction T arbitrary: w D)
  case Nil
  then show ?case by simp
next
  case (Cons folder T)
  let ?id = "\<lambda>f. fst (identifyFilesForAction w0 f CRITERIA_STRING)"
  let ?step = "\<lambda>w folderPath.
                   processFilesLookigForAbsence
                     (console_log ''Processing directory:'' [Path folderPath] w)
                     folderPath CRITERIA_STRING"
  let ?wl = "console_log ''Processing directory:'' [Path folder] w"
  have st: "store ?wl = without D (store w0)"
    using Cons.prems(3) by simp
  have "folder \<notin> D"
    using Cons.prems(2,5) by auto
  moreover have "\<forall>d \<in> D. d = [] \<or> butlast d \<noteq> folder"
    using Cons.prems(5) by auto
  ultimately have same: "fst (identifyFilesForAction ?wl folder CRITERIA_STRING) = ?id folder"
    by (rule identify_without [OF st])
  define w1 where "w1 = ?step w folder"
  have fold: "foldl ?step w (folder # T) = foldl ?step w1 T"
    by (simp add: w1_def)
  show ?case
  proof (cases "f \<in> set (?id folder)")
    case True
    with earlier_folder_console(2) [of f ?wl folder CRITERIA_STRING] same assms(7) Cons.prems(4)
    have "(ERROR, ''    ERROR DELETING:'', [Path f]) \<in> set (console w1)"
      by (simp add: w1_def)
    with earlier_folders_console [of w1 T] show ?thesis
      unfolding fold by blast
  next
    case False
    with Cons.prems(6) have f: "f \<in> set (concat (map ?id T))" by auto
    let ?new = "{f \<in> set (?id folder). f \<notin> set (denied w0)}"
    have den: "denied w1 = denied w0"
      using earlier_folder_effect(1) [of ?wl folder CRITERIA_STRING] Cons.prems(4)
      by (simp add: w1_def)
    have sto: "store w1 = without (D \<union> ?new) (store w0)"
      using earlier_folder_effect(2) [of ?wl folder CRITERIA_STRING] same Cons.prems(3,4)
      by (simp add: w1_def without_without)
    have D': "\<forall>d \<in> D \<union> ?new. statSync (store w0) d = Some IsFile \<and> d \<noteq> [] \<and> butlast d \<notin> set T"
    proof
      fix d
      assume "d \<in> D \<union> ?new"
      then show "statSync (store w0) d = Some IsFile \<and> d \<noteq> [] \<and> butlast d \<notin> set T"
      proof
        assume "d \<in> D"
        with Cons.prems(5) show ?thesis by auto
      next
        assume "d \<in> ?new"
        then have "d \<in> set (?id folder)" by simp
        from identify_files [OF this] Cons.prems(1) show ?thesis by auto
      qed
    qed
    have "distinct T" "\<forall>f \<in> set T. statSync (store w0) f = Some IsDirectory"
      using Cons.prems(1,2) by simp_all
    from Cons.IH [OF this sto den D' f] show ?thesis
      unfolding fold .
  qed
qed

lemma main_earlier_refused:
  assumes "f \<in> set (actionable_files w
                          (case startArg of
                             None \<Rightarrow> cwd
                           | Some a \<Rightarrow> if a \<noteq> [] then path_resolve cwd a else cwd))"
    and "f \<in> set (denied w)"
  shows "(ERROR, ''    ERROR DELETING:'', [Path f])
           \<in> set (console (fst (main_earlier w cwd startArg)))"
proof -
  define root where "root = (case startArg of
                             None \<Rightarrow> cwd
                           | Some a \<Rightarrow> if a \<noteq> [] then path_resolve cwd a else cwd)"
  let ?T = "findTargetFoldersRecursive (store w) root TARGET_FOLDER_NAME"
  from assms(1) have af: "f \<in> set (actionable_files w root)"
    by (simp add: root_def)
  then have T: "?T \<noteq> []"
    by (auto simp: actionable_files_def)
  have dir: "statSync (store w) root = Some IsDirectory"
  proof (rule ccontr)
    assume "statSync (store w) root \<noteq> Some IsDirectory"
    then have "?T = []" by (rule scan_invalid_root)
    with T show False by simp
  qed
  let ?w0 = "console_log ''Criteria: Files NOT containing''
               [Str CRITERIA_STRING, Str TARGET_FOLDER_NAME]
               (console_warn ''WARNING: DELETE_FILES is set to true. Files will be permanently deleted.'' []
                 (console_log ''-----------------------------'' []
                   (console_log ''Node.js File Cleanup Utility'' [] w)))"
  let ?w1 = "foldl (\<lambda>w folder. console_log ''  - {folder}'' [Path folder] w)
               (console_log ''Found {targetFolders.length} director(y/ies):''
                  [Num (length ?T), Str TARGET_FOLDER_NAME]
                  (console_log ''Starting search for {TARGET_FOLDER_NAME} directories from:''
                     [Str TARGET_FOLDER_NAME, Path root] ?w0))
               ?T"
  let ?w2 = "foldl (\<lambda>w folderPath.
                   processFilesLookigForAbsence
                     (console_log ''Processing directory:'' [Path folderPath] w)
                     folderPath CRITERIA_STRING) ?w1 ?T"
  have a: "distinct ?T" by (rule scan_distinct)
  have b: "\<forall>f \<in> set ?T. statSync (store w) f = Some IsDirectory"
    by (auto dest: scan_is_dir)
  have c: "store ?w1 = without {} (store w)" and d: "denied ?w1 = denied w"
    by simp_all
  have e: "\<forall>d \<in> {}. statSync (store w) d = Some IsFile \<and> d \<noteq> [] \<and> butlast d \<notin> set ?T"
    by simp
  have m: "(ERROR, ''    ERROR DELETING:'', [Path f]) \<in> set (console ?w2)"
    by (rule earlier_folders_refused [OF a b c d e _ assms(2)])
       (use af in \<open>simp add: actionable_files_def\<close>)
  have "fst (main_earlier w cwd startArg) =
          console_log ''Script finished.'' [] (console_log ''-----------------------------'' [] ?w2)"
    using dir T
    by (simp add: main_earlier_def Let_def root_def [symmetric] existsSync_def DELETE_FILES_def)
  with m show ?thesis
    by (simp add: console_log_def)
qed


section \<open>Both scripts: the frame of a run\<close>

text \<open>
  C5, as amended. Take the options, the starting directory and the ignore-list path of a
  run of the script that reads options. At every other path the store after the run is
  the store before it, except that with deletion enabled the actionable files on which
  \<^verbatim>\<open>unlinkSync\<close> is not refused are gone: with deletion disabled nothing is removed,
  with deletion enabled nothing but those files. An actionable file on which
  \<^verbatim>\<open>unlinkSync\<close> is refused stays, and the console then holds the error message of the
  \<^verbatim>\<open>catch\<close> block for it. The ignore list is not an actionable file; it is untouched
  when the update option is off, and otherwise it is either untouched or its old content
  (nothing, if it did not exist) with one text appended. The earlier script, whose
  deletion is switched on by its constant, leaves the store without exactly those files,
  changes nothing else, and writes its own error message for a refused file.
\<close>

theorem run_frame:
  assumes "c = parsed w cliArgs" and "root = searchStartPath c cwd"
    and "fi = path_join root FORCEIGNORE_FILENAME"
    and "start = (case startArg of
                    None \<Rightarrow> cwd
                  | Some a \<Rightarrow> if a \<noteq> [] then path_resolve cwd a else cwd)"
  shows "(q \<noteq> fi \<longrightarrow>
            map_of (store (fst (main w cwd cliArgs))) q =
              (if effectiveDeleteFiles c \<and> q \<in> set (actionable_files w root) \<and>
                  q \<notin> set (denied w)
               then None else map_of (store w) q))
       \<and> (effectiveDeleteFiles c \<and> f \<in> set (actionable_files w root) \<and> f \<in> set (denied w) \<longrightarrow>
            (ERROR, ''      ERROR DELETING:'', [Path f])
              \<in> set (console (fst (main w cwd cliArgs))))
       \<and> fi \<notin> set (actionable_files w root)
       \<and> (\<not> effectiveUpdateForceignore c \<longrightarrow>
            map_of (store (fst (main w cwd cliArgs))) fi = map_of (store w) fi)
       \<and> (map_of (store (fst (main w cwd cliArgs))) fi = map_of (store w) fi
          \<or> (\<exists>old app.
                (readFileSync (store w) fi = Some old \<or> map_of (store w) fi = None \<and> old = []) \<and>
                map_of (store (fst (main w cwd cliArgs))) fi = Some (File (Some (old @ app)))))
       \<and> store (fst (main_earlier w cwd startArg)) =
           without {f \<in> set (actionable_files w start). f \<notin> set (denied w)} (store w)
       \<and> (f \<in> set (actionable_files w start) \<and> f \<in> set (denied w) \<longrightarrow>
            (ERROR, ''    ERROR DELETING:'', [Path f])
              \<in> set (console (fst (main_earlier w cwd startArg))))"
proof -
  have r1: "effectiveDeleteFiles c \<and> f \<in> set (actionable_files w root) \<and> f \<in> set (denied w) \<longrightarrow>
            (ERROR, ''      ERROR DELETING:'', [Path f])
              \<in> set (console (fst (main w cwd cliArgs)))"
    using main_refused [where f = f and w = w and cliArgs = cliArgs and cwd = cwd] assms(1,2) by simp
  have r2: "f \<in> set (actionable_files w start) \<and> f \<in> set (denied w) \<longrightarrow>
            (ERROR, ''    ERROR DELETING:'', [Path f])
              \<in> set (console (fst (main_earlier w cwd startArg)))"
    using main_earlier_refused [where f = f and w = w and startArg = startArg and cwd = cwd] assms(4) by simp
  have s2: "store (fst (main_earlier w cwd startArg)) =
           without {f \<in> set (actionable_files w start). f \<notin> set (denied w)} (store w)"
    using main_earlier_store [of w cwd startArg] assms(4) by simp
  from main_map_of(1) [OF assms(1-3), of q] main_map_of(2,3) [OF assms(1-3)]
    forceignore_not_actionable [of root w] assms(3) r1 r2 s2
  show ?thesis by blast
qed


theorem run_frame_witness:
  "[''proj'', ''a'', ''dataSourceObjects'', ''y.xml'']
     \<noteq> path_join [''proj''] FORCEIGNORE_FILENAME
   \<and> effectiveDeleteFiles (parsed \<lparr>store = example_store, denied = [], console = []\<rparr> [''--delete''])
   \<and> \<not> effectiveUpdateForceignore
         (parsed \<lparr>store = example_store, denied = [], console = []\<rparr> [''--delete''])
   \<and> map_of (store (fst (main \<lparr>store = example_store, denied = [], console = []\<rparr>
                              [''proj''] [''--delete''])))
        [''proj'', ''a'', ''dataSourceObjects'', ''y.xml''] = None
   \<and> map_of (store (fst (main \<lparr>store = example_store, denied = [], console = []\<rparr>
                              [''proj''] [''--delete''])))
        [''proj'', ''a'', ''dataSourceObjects'', ''x.xml'']
       = Some (File (Some ''<a><objectType>Object</objectType></a>''))
   \<and> map_of (store (fst (main \<lparr>store = example_store, denied = [], console = []\<rparr>
                              [''proj''] [''--delete''])))
        (path_join [''proj''] FORCEIGNORE_FILENAME) = None
   \<and> [''proj'', ''a'', ''dataSourceObjects'', ''y.xml'']
       \<in> set (actionable_files
                \<lparr>store = example_store,
                 denied = [[''proj'', ''a'', ''dataSourceObjects'', ''y.xml'']],
                 console = []\<rparr> [''proj''])
   \<and> (ERROR, ''      ERROR DELETING:'', [Path [''proj'', ''a'', ''dataSourceObjects'', ''y.xml'']])
       \<in> set (console (fst (main \<lparr>store = example_store,
                                    denied = [[''proj'', ''a'', ''dataSourceObjects'', ''y.xml'']],
                                    console = []\<rparr>
                                 [''proj''] [''--delete''])))
   \<and> (ERROR, ''    ERROR DELETING:'', [Path [''proj'', ''a'', ''dataSourceObjects'', ''y.xml'']])
       \<in> set (console (fst (main_earlier \<lparr>store = example_store,
                                    denied = [[''proj'', ''a'', ''dataSourceObjects'', ''y.xml'']],
                                    console = []\<rparr>
                                 [''proj''] None)))"
proof -
  let ?w = "\<lparr>store = example_store, denied = [], console = []\<rparr>"
  let ?d = "\<lparr>store = example_store,
             denied = [[''proj'', ''a'', ''dataSourceObjects'', ''y.xml'']],
             console = []\<rparr>"
  let ?c = "parsed ?w [''--delete'']"
  let ?y = "[''proj'', ''a'', ''dataSourceObjects'', ''y.xml'']"
  have root: "[''proj''] = searchStartPath ?c [''proj'']"
    by (simp add: searchStartPath_def parsed_delete)
  have rootd: "[''proj''] = searchStartPath (parsed ?d [''--delete'']) [''proj'']"
    by (simp add: searchStartPath_def parsed_delete)
  have start: "[''proj''] = (case None of None \<Rightarrow> [''proj'']
                  | Some a \<Rightarrow> if a \<noteq> [] then path_resolve [''proj''] a else [''proj''])"
    by simp
  have A: "actionable_files ?w [''proj''] = [?y]"
    by (rule example_actionable) simp
  have Ad: "actionable_files ?d [''proj''] = [?y]"
    by (rule example_actionable) simp
  have ne: "?y \<noteq> path_join [''proj''] FORCEIGNORE_FILENAME"
    "[''proj'', ''a'', ''dataSourceObjects'', ''x.xml'']
     \<noteq> path_join [''proj''] FORCEIGNORE_FILENAME"
    by (simp_all add: path_join_def)
  have x: "map_of (store ?w) [''proj'', ''a'', ''dataSourceObjects'', ''x.xml'']
       = Some (File (Some ''<a><objectType>Object</objectType></a>''))"
    and fi: "map_of (store ?w) (path_join [''proj''] FORCEIGNORE_FILENAME) = None"
    by (simp_all add: example_store_def path_join_def FORCEIGNORE_FILENAME_def)
  have den: "?y \<in> set (denied ?d)"
    by simp
  from run_frame [where q = ?y and f = ?y, OF refl root refl start]
       run_frame [where q = "[''proj'', ''a'', ''dataSourceObjects'', ''x.xml'']" and f = ?y,
                  OF refl root refl start]
       ne x fi parsed_delete(1,2) [of ?w]
  have 1: "map_of (store (fst (main ?w [''proj''] [''--delete'']))) ?y = None
     \<and> map_of (store (fst (main ?w [''proj''] [''--delete''])))
          [''proj'', ''a'', ''dataSourceObjects'', ''x.xml'']
         = Some (File (Some ''<a><objectType>Object</objectType></a>''))
     \<and> map_of (store (fst (main ?w [''proj''] [''--delete''])))
          (path_join [''proj''] FORCEIGNORE_FILENAME) = None"
    by (simp add: A)
  from run_frame [where q = ?y and f = ?y and w = ?d, OF refl rootd refl start]
       parsed_delete(1) [of ?d] den
  have 2: "(ERROR, ''      ERROR DELETING:'', [Path ?y])
       \<in> set (console (fst (main ?d [''proj''] [''--delete''])))
     \<and> (ERROR, ''    ERROR DELETING:'', [Path ?y])
       \<in> set (console (fst (main_earlier ?d [''proj''] None)))"
    by (simp add: Ad)
  from 1 2 ne(1) parsed_delete(1,2) [of ?w] Ad show ?thesis
    by simp
qed

text \<open>
  C5 as stated fails when \<^verbatim>\<open>unlinkSync\<close> raises: the \<^verbatim>\<open>catch\<close> block writes a message
  and the actionable file stays.
\<close>

theorem run_frame_counterexample:
  "effectiveDeleteFiles
     (parsed \<lparr>store = example_store,
              denied = [[''proj'', ''a'', ''dataSourceObjects'', ''y.xml'']],
              console = []\<rparr> [''--delete''])
   \<and> [''proj'', ''a'', ''dataSourceObjects'', ''y.xml'']
       \<in> set (actionable_files
                \<lparr>store = example_store,
                 denied = [[''proj'', ''a'', ''dataSourceObjects'', ''y.xml'']],
                 console = []\<rparr> [''proj''])
   \<and> map_of (store (fst (main \<lparr>store = example_store,
                                 denied = [[''proj'', ''a'', ''dataSourceObjects'', ''y.xml'']],
                                 console = []\<rparr>
                              [''proj''] [''--delete''])))
        [''proj'', ''a'', ''dataSourceObjects'', ''y.xml'']
       = Some (File (Some ''<a><objectType>Field</objectType></a>''))"
proof -
  let ?w = "\<lparr>store = example_store,
             denied = [[''proj'', ''a'', ''dataSourceObjects'', ''y.xml'']],
             console = []\<rparr>"
  let ?c = "parsed ?w [''--delete'']"
  have root: "[''proj''] = searchStartPath ?c [''proj'']"
    by (simp add: searchStartPath_def parsed_delete)
  have A: "actionable_files ?w [''proj''] = [[''proj'', ''a'', ''dataSourceObjects'', ''y.xml'']]"
    by (rule example_actionable) simp
  have ne: "[''proj'', ''a'', ''dataSourceObjects'', ''y.xml'']
     \<noteq> path_join [''proj''] FORCEIGNORE_FILENAME"
    by (simp add: path_join_def)
  have y: "map_of (store ?w) [''proj'', ''a'', ''dataSourceObjects'', ''y.xml'']
       = Some (File (Some ''<a><objectType>Field</objectType></a>''))"
    by (simp add: example_store_def)
  from main_map_of(1) [OF refl root refl ne] y parsed_delete(1) [of ?w]
  show ?thesis
    by (simp add: A)
qed

section \<open>The run: its exit status\<close>

lemma main_exit:
  "snd (main w cwd cliArgs) =
     (if statSync (store w) (searchStartPath (parsed w cliArgs) cwd) = Some IsDirectory
      then 0 else 1)"
proof -
  obtain c' w1 where p: "foldl parse_arg (cli_defaults, w) cliArgs = (c', w1)"
    by (cases "foldl parse_arg (cli_defaults, w) cliArgs")
  then have c': "c' = parsed w cliArgs"
    by (simp add: parsed_def)
  from p have w1: "store w1 = store w"
    using foldl_parse_arg_world(1) [of cli_defaults w cliArgs] by simp
  show ?thesis
    using p c' w1
    by (auto simp: main_def Let_def existsSync_def split: option.splits)
qed

text \<open>
  C9. The exit status of \<^verbatim>\<open>main\<close> is not zero if and only if the starting directory
  does not exist or is not a directory, and it is then 1; every other run ends with
  status 0, whatever the scan finds.
\<close>

theorem exit_status:
  "(snd (main w cwd cliArgs) \<noteq> 0) =
     (\<not> existsSync (store w) (searchStartPath (parsed w cliArgs) cwd) \<or>
      statSync (store w) (searchStartPath (parsed w cliArgs) cwd) \<noteq> Some IsDirectory)
   \<and> (snd (main w cwd cliArgs) = 0 \<or> snd (main w cwd cliArgs) = 1)"
  by (auto simp: main_exit existsSync_def)

theorem exit_status_witness:
  "existsSync [([''proj''], Dir True)] [''proj'']
   \<and> statSync [([''proj''], Dir True)] [''proj''] = Some IsDirectory
   \<and> findTargetFoldersRecursive [([''proj''], Dir True)] [''proj''] TARGET_FOLDER_NAME = []
   \<and> snd (main \<lparr>store = [([''proj''], Dir True)], denied = [], console = []\<rparr> [''proj''] []) = 0
   \<and> \<not> existsSync [([''proj''], Dir True)] [''proj'', ''missing'']
   \<and> snd (main \<lparr>store = [([''proj''], Dir True)], denied = [], console = []\<rparr> [''proj'']
             [''missing'']) \<noteq> 0"
proof -
  let ?w = "\<lparr>store = [([''proj''], Dir True)], denied = [], console = []\<rparr>"
  have r1: "searchStartPath (parsed ?w []) [''proj''] = [''proj'']"
    by (simp add: searchStartPath_def parsed_nothing cli_defaults_def)
  have r2: "searchStartPath (parsed ?w [''missing'']) [''proj''] = [''proj'', ''missing'']"
    by (simp add: searchStartPath_def parsed_def parse_arg_def cli_defaults_def startsWith_def
          path_resolve_def)
  have e1: "existsSync [([''proj''], Dir True)] [''proj'']"
    and s1: "statSync [([''proj''], Dir True)] [''proj''] = Some IsDirectory"
    and e2: "\<not> existsSync [([''proj''], Dir True)] [''proj'', ''missing'']"
    by (simp_all add: existsSync_def statSync_def)
  have t: "findTargetFoldersRecursive [([''proj''], Dir True)] [''proj''] TARGET_FOLDER_NAME = []"
    by (subst findTargetFoldersRecursive.simps) (simp add: readdirSync_def children_def)
  from exit_status [of ?w "[''proj'']" "[]"] exit_status [of ?w "[''proj'']" "[''missing'']"]
    e1 s1 e2 t
  show ?thesis
    by (simp add: r1 r2)
qed


section \<open>The run: an ignore list that cannot be read\<close>

lemma run_search_update:
  assumes "effectiveUpdateForceignore c" and "actionable_files w root \<noteq> []"
  shows "\<exists>w2. store w2 = without (removed c w root) (store w) \<and> denied w2 = denied w \<and>
     run_search c w root = finish c (updateForceignoreFile w2 root (actionable_files w root))"
proof -
  let ?T = "findTargetFoldersRecursive (store w) root TARGET_FOLDER_NAME"
  from assms(2) have T: "?T \<noteq> []"
    by (auto simp: actionable_files_def)
  let ?w0 = "console_log ''Starting search for {TARGET_FOLDER_NAME} directories from:''
                [Str TARGET_FOLDER_NAME, Path root] w"
  let ?w1 = "foldl (\<lambda>w folder. console_log ''  - {folder}'' [Path folder] w)
                      (console_log ''Found {targetFolders.length} director(y/ies):''
                         [Num (length ?T), Str TARGET_FOLDER_NAME] ?w0) ?T"
  define r where "r = foldl (process_folder c) (?w1, []) ?T"
  have w1: "store ?w1 = store w" "denied ?w1 = denied w"
    by simp_all
  note f = folders_from_start [OF w1, of c root, folded r_def]
  have "run_search c w root = finish c (updateForceignoreFile (fst r) root (snd r))"
    using T assms f(1) by (simp add: run_search_def Let_def r_def case_prod_beta)
  with f show ?thesis by auto
qed

text \<open>
  C8. Let the ignore list of a run exist and its reading raise. Then
  \<^verbatim>\<open>updateForceignoreFile\<close> returns the world it was given with one error message
  added: it writes nothing. The store after the whole run is the store before it without
  the files the run removed, and the ignore list is not one of them: the deletions stand
  and are not undone. When the starting directory is valid, the update option is on and
  there is an actionable file, the error message is on the console after the run.
\<close>

theorem ignore_list_read_failure:
  assumes "c = parsed w cliArgs" and "root = searchStartPath c cwd"
    and "fi = path_join root FORCEIGNORE_FILENAME"
    and "existsSync (store w) fi" and "readFileSync (store w) fi = None"
  shows "updateForceignoreFile w root batch =
           w\<lparr>console := console w @ [(ERROR, ''Error reading {forceignorePath}:'', [Path fi])]\<rparr>
       \<and> store (fst (main w cwd cliArgs)) = without (removed c w root) (store w)
       \<and> fi \<notin> removed c w root
       \<and> (statSync (store w) root = Some IsDirectory \<and> effectiveUpdateForceignore c \<and>
          actionable_files w root \<noteq> [] \<longrightarrow>
            (ERROR, ''Error reading {forceignorePath}:'', [Path fi])
              \<in> set (console (fst (main w cwd cliArgs))))"
proof (intro conjI impI)
  show "updateForceignoreFile w root batch =
           w\<lparr>console := console w @ [(ERROR, ''Error reading {forceignorePath}:'', [Path fi])]\<rparr>"
    using assms(4,5) unfolding assms(3)
    by (simp add: update_read_failure console_error_def)
  show fi: "fi \<notin> removed c w root"
    using forceignore_not_actionable [of root w] by (simp add: removed_def assms(3))
  have keep: "existsSync (store w2) fi \<and> readFileSync (store w2) fi = None"
    if "store w2 = without (removed c w root) (store w)" for w2
    using that fi assms(4,5) by (simp add: existsSync_def statSync_without readFileSync_without)
  show "store (fst (main w cwd cliArgs)) = without (removed c w root) (store w)"
  proof -
    from main_store [of w cliArgs cwd] obtain w2 where
      w2: "store w2 = without (removed c w root) (store w)"
      and m: "store (fst (main w cwd cliArgs)) =
         (if effectiveUpdateForceignore c \<and> actionable_files w root \<noteq> []
          then store (updateForceignoreFile w2 root (actionable_files w root))
          else store w2)"
      unfolding assms(1,2) by blast
    from keep [OF w2] have "store (updateForceignoreFile w2 root (actionable_files w root)) = store w2"
      unfolding assms(3) by (simp add: update_read_failure)
    with m w2 show ?thesis by simp
  qed
  assume a: "statSync (store w) root = Some IsDirectory \<and> effectiveUpdateForceignore c \<and>
          actionable_files w root \<noteq> []"
  obtain c' w1 where p: "foldl parse_arg (cli_defaults, w) cliArgs = (c', w1)"
    by (cases "foldl parse_arg (cli_defaults, w) cliArgs")
  then have c': "c' = c"
    by (simp add: assms(1) parsed_def)
  from p have w1: "store w1 = store w" "denied w1 = denied w"
    using foldl_parse_arg_world [of cli_defaults w cliArgs] by simp_all
  let ?wb = "banner c w1"
  have wb: "store ?wb = store w" "denied ?wb = denied w"
    using w1 by simp_all
  have af: "actionable_files ?wb root = actionable_files w root"
    using wb(1) by (simp add: actionable_files_def identify_store_cong [OF wb(1)])
  have rm: "removed c ?wb root = removed c w root"
    by (simp add: removed_def af wb w1)
  have m: "fst (main w cwd cliArgs) = run_search c ?wb root"
    using a p c' wb by (simp add: main_def Let_def assms(2) existsSync_def)
  from run_search_update [of c ?wb root] a af obtain w2 where
    w2: "store w2 = without (removed c ?wb root) (store ?wb)"
    and r: "run_search c ?wb root = finish c (updateForceignoreFile w2 root (actionable_files ?wb root))"
    by auto
  from w2 have "store w2 = without (removed c w root) (store w)"
    by (simp add: rm wb w1)
  from keep [OF this] have "updateForceignoreFile w2 root (actionable_files ?wb root)
      = console_error ''Error reading {forceignorePath}:'' [Path fi] w2"
    unfolding assms(3) by (simp add: update_read_failure)
  then have "(ERROR, ''Error reading {forceignorePath}:'', [Path fi])
        \<in> set (console (updateForceignoreFile w2 root (actionable_files ?wb root)))"
    by (simp add: console_error_def)
  with finish_console show "(ERROR, ''Error reading {forceignorePath}:'', [Path fi])
              \<in> set (console (fst (main w cwd cliArgs)))"
    unfolding m r by blast
qed


lemma example_locked_scan:
  "findTargetFoldersRecursive example_store_locked [''proj''] TARGET_FOLDER_NAME
     = [[''proj'', ''a'', ''dataSourceObjects'']]"
  apply (subst findTargetFoldersRecursive.simps)
  apply (simp add: example_store_locked_def example_store_def readdirSync_def children_def
      statSync_def path_join_def IGNORE_DIRS_def TARGET_FOLDER_NAME_def)
  apply (subst findTargetFoldersRecursive.simps)
  apply (simp add: readdirSync_def children_def statSync_def path_join_def
      IGNORE_DIRS_def)
  apply (subst findTargetFoldersRecursive.simps)
  apply (simp add: readdirSync_def children_def statSync_def path_join_def)
  done

lemma example_locked_actionable:
  "store w = example_store_locked \<Longrightarrow>
   actionable_files w [''proj''] = [[''proj'', ''a'', ''dataSourceObjects'', ''y.xml'']]"
  by (simp add: actionable_files_def example_locked_scan)
     (simp add: identify_fst example_store_locked_def example_store_def readdirSync_def
        children_def actionable_def statSync_def readFileSync_def path_join_def
        CRITERIA_STRING_def startsWith_def)

lemma parsed_delete_update:
  "effectiveDeleteFiles (parsed w [''--delete'', ''--update-forceignore''])"
  "effectiveUpdateForceignore (parsed w [''--delete'', ''--update-forceignore''])"
  "remainingArgsForPath (parsed w [''--delete'', ''--update-forceignore'']) = []"
  by (simp_all add: parsed_def parse_arg_def cli_defaults_def)

theorem ignore_list_read_failure_witness:
  "existsSync example_store_locked (path_join [''proj''] FORCEIGNORE_FILENAME)
   \<and> readFileSync example_store_locked (path_join [''proj''] FORCEIGNORE_FILENAME) = None
   \<and> statSync example_store_locked [''proj''] = Some IsDirectory
   \<and> effectiveUpdateForceignore
        (parsed \<lparr>store = example_store_locked, denied = [], console = []\<rparr>
           [''--delete'', ''--update-forceignore''])
   \<and> actionable_files \<lparr>store = example_store_locked, denied = [], console = []\<rparr> [''proj'']
        = [[''proj'', ''a'', ''dataSourceObjects'', ''y.xml'']]
   \<and> (ERROR, ''Error reading {forceignorePath}:'', [Path (path_join [''proj''] FORCEIGNORE_FILENAME)])
        \<in> set (console (fst (main \<lparr>store = example_store_locked, denied = [], console = []\<rparr>
                                 [''proj''] [''--delete'', ''--update-forceignore''])))
   \<and> map_of (store (fst (main \<lparr>store = example_store_locked, denied = [], console = []\<rparr>
                              [''proj''] [''--delete'', ''--update-forceignore''])))
        [''proj'', ''a'', ''dataSourceObjects'', ''y.xml''] = None
   \<and> map_of (store (fst (main \<lparr>store = example_store_locked, denied = [], console = []\<rparr>
                              [''proj''] [''--delete'', ''--update-forceignore''])))
        (path_join [''proj''] FORCEIGNORE_FILENAME) = Some (File None)"
proof -
  let ?w = "\<lparr>store = example_store_locked, denied = [], console = []\<rparr>"
  let ?args = "[''--delete'', ''--update-forceignore'']"
  let ?fi = "path_join [''proj''] FORCEIGNORE_FILENAME"
  have root: "[''proj''] = searchStartPath (parsed ?w ?args) [''proj'']"
    by (simp add: searchStartPath_def parsed_delete_update)
  have m: "map_of example_store_locked ?fi = Some (File None)"
    by (simp add: example_store_locked_def example_store_def path_join_def FORCEIGNORE_FILENAME_def)
  have e: "existsSync (store ?w) ?fi" and r: "readFileSync (store ?w) ?fi = None"
    by (simp_all add: existsSync_def statSync_def readFileSync_def m)
  have s: "statSync example_store_locked [''proj''] = Some IsDirectory"
    by (simp add: example_store_locked_def example_store_def statSync_def)
  have A: "actionable_files ?w [''proj''] = [[''proj'', ''a'', ''dataSourceObjects'', ''y.xml'']]"
    by (rule example_locked_actionable) simp
  have rem: "removed (parsed ?w ?args) ?w [''proj'']
      = {[''proj'', ''a'', ''dataSourceObjects'', ''y.xml'']}"
    by (auto simp: removed_def A parsed_delete_update)
  from ignore_list_read_failure [OF refl root refl e r, of "[]"]
  have st: "store (fst (main ?w [''proj''] ?args))
        = without {[''proj'', ''a'', ''dataSourceObjects'', ''y.xml'']} example_store_locked"
    and msg: "(ERROR, ''Error reading {forceignorePath}:'', [Path ?fi])
        \<in> set (console (fst (main ?w [''proj''] ?args)))"
    using s A parsed_delete_update(2) [of ?w] by (simp_all add: rem)
  have ne: "?fi \<noteq> [''proj'', ''a'', ''dataSourceObjects'', ''y.xml'']"
    by (simp add: path_join_def)
  show ?thesis
    using e r s A msg parsed_delete_update(2) [of ?w] ne
    by (simp add: st map_of_without m)
qed


section \<open>The run without options\<close>

lemma no_option_keeps_flags:
  assumes "\<forall>a \<in> set args. \<not> startsWith a ''--''"
  shows "effectiveDeleteFiles (fst (foldl parse_arg (c, w) args)) = effectiveDeleteFiles c
       \<and> effectiveUpdateForceignore (fst (foldl parse_arg (c, w) args)) = effectiveUpdateForceignore c"
  using assms
proof (induction args arbitrary: c w)
  case Nil
  show ?case by simp
next
  case (Cons a args)
  from Cons.prems have a: "\<not> startsWith a ''--''" by simp
  then have ne: "a \<noteq> ''--delete''" "a \<noteq> ''--update-forceignore''" "a \<noteq> ''--no-delete''"
    "a \<noteq> ''--no-update-forceignore''"
    by (auto simp: startsWith_def)
  have step: "parse_arg (c, w) a = (c\<lparr>remainingArgsForPath := remainingArgsForPath c @ [a]\<rparr>, w)"
    using a ne by (simp add: parse_arg_def)
  from Cons.IH [of "c\<lparr>remainingArgsForPath := remainingArgsForPath c @ [a]\<rparr>" w] Cons.prems
  show ?case
    by (simp add: step)
qed

lemma main_without_options:
  assumes "\<forall>a \<in> set cliArgs. \<not> startsWith a ''--''"
  shows "\<not> effectiveDeleteFiles (parsed w cliArgs)"
    and "\<not> effectiveUpdateForceignore (parsed w cliArgs)"
    and "store (fst (main w cwd cliArgs)) = store w"
proof -
  from no_option_keeps_flags [OF assms, of cli_defaults w]
  show d: "\<not> effectiveDeleteFiles (parsed w cliArgs)"
    and u: "\<not> effectiveUpdateForceignore (parsed w cliArgs)"
    by (simp_all add: parsed_def cli_defaults_def DEFAULT_DELETE_FILES_def
          DEFAULT_UPDATE_FORCEIGNORE_def)
  from main_store [of w cliArgs cwd] d u
  show "store (fst (main w cwd cliArgs)) = store w"
    by (auto simp: removed_def)
qed

lemma example_earlier_folder:
  assumes "store w = example_store" and "denied w = []"
  shows "store (processFilesLookigForAbsence w [''proj'', ''a'', ''dataSourceObjects''] CRITERIA_STRING)
    = [([''proj''], Dir True),
       ([''proj'', ''a''], Dir True),
       ([''proj'', ''a'', ''dataSourceObjects''], Dir True),
       ([''proj'', ''a'', ''dataSourceObjects'', ''x.xml''],
          File (Some ''<a><objectType>Object</objectType></a>''))]"
proof -
  have rd: "readdirSync (store w) [''proj'', ''a'', ''dataSourceObjects''] = Some [''x.xml'', ''y.xml'']"
    by (simp add: assms readdirSync_def children_def example_store_def)
  have x: "process_entry [''proj'', ''a'', ''dataSourceObjects''] CRITERIA_STRING (w, 0, 0) ''x.xml''
      = (w, 1, 0)"
    by (simp add: process_entry_def assms statSync_def readFileSync_def example_store_def
          path_join_def CRITERIA_STRING_def startsWith_def)
  let ?w1 = "console_log ''  File does NOT contain''
        [Str CRITERIA_STRING, Flag DELETE_FILES,
         Path (path_join [''proj'', ''a'', ''dataSourceObjects''] ''y.xml'')] w"
  have ul: "unlinkSync ?w1 [''proj'', ''a'', ''dataSourceObjects'', ''y.xml'']
      = Some (?w1\<lparr>store := without {[''proj'', ''a'', ''dataSourceObjects'', ''y.xml'']} example_store\<rparr>)"
    by (simp add: unlinkSync_def assms without_def example_store_def)
  have y: "store (fst (process_entry [''proj'', ''a'', ''dataSourceObjects''] CRITERIA_STRING
             (w, 1, 0) ''y.xml''))
      = without {[''proj'', ''a'', ''dataSourceObjects'', ''y.xml'']} example_store
      \<and> snd (process_entry [''proj'', ''a'', ''dataSourceObjects''] CRITERIA_STRING
             (w, 1, 0) ''y.xml'') = (2, 1)"
    using ul
    by (simp add: process_entry_def assms statSync_def readFileSync_def example_store_def
          path_join_def CRITERIA_STRING_def startsWith_def DELETE_FILES_def Let_def)
  have "store (processFilesLookigForAbsence w [''proj'', ''a'', ''dataSourceObjects''] CRITERIA_STRING)
      = without {[''proj'', ''a'', ''dataSourceObjects'', ''y.xml'']} example_store"
    using y by (simp add: processFilesLookigForAbsence_def rd x case_prod_beta)
  then show ?thesis
    by (simp add: without_def example_store_def)
qed

text \<open>
  C6 fails on the earlier script. Its comment says that \<^verbatim>\<open>DELETE_FILES\<close> defaults to
  false, the dry run, and the line below the comment sets it to true: started without
  any argument on the example tree, the script removes \<^verbatim>\<open>y.xml\<close>. The script that
  reads options keeps to the claim, as \<open>main_without_options\<close> shows.
\<close>

theorem earlier_script_deletes_by_default:
  "DELETE_FILES
   \<and> store (fst (main_earlier \<lparr>store = example_store, denied = [], console = []\<rparr> [''proj''] None))
     = [([''proj''], Dir True),
        ([''proj'', ''a''], Dir True),
        ([''proj'', ''a'', ''dataSourceObjects''], Dir True),
        ([''proj'', ''a'', ''dataSourceObjects'', ''x.xml''],
           File (Some ''<a><objectType>Object</objectType></a>''))]"
proof -
  let ?w = "\<lparr>store = example_store, denied = [], console = []\<rparr>"
  have s: "statSync example_store [''proj''] = Some IsDirectory"
    by (simp add: example_store_def statSync_def)
  show ?thesis
    by (simp add: main_earlier_def Let_def DELETE_FILES_def existsSync_def s example_scan
          example_earlier_folder)
qed

end
